theory Spec2Isabelle
  imports Complex_Main "HOL-Library.Word" "HOL-Library.Log_Nat"
begin

section \<open>JavaScript strings and exceptions\<close>

text \<open>
  A JavaScript string is a sequence of 16-bit code units. String literals of the source
  are written \<open>js ''...''\<close>.
\<close>

type_synonym jschar = "16 word"
type_synonym jsstring = "jschar list"

definition js :: "string \<Rightarrow> jsstring" where
  "js s = map (\<lambda>c. of_nat (of_char c)) s"

text \<open>
  Every exception the modelled code can see is an instance of \<open>Error\<close>: it has a
  name and a message, and \<open>error instanceof Error ? error.message : String(error)\<close>
  is its message.
\<close>

datatype exn_name = Error | TypeError | SyntaxError | URIError | InvalidCharacterError

datatype exn = Exn exn_name jsstring

fun message :: "exn \<Rightarrow> jsstring" where
  "message (Exn _ m) = m"

text \<open>Truthiness of a value of type \<open>string | undefined\<close>.\<close>

fun truthy_str :: "jsstring option \<Rightarrow> bool" where
  "truthy_str None = False"
| "truthy_str (Some s) = (s \<noteq> [])"

text \<open>A template literal prints \<open>undefined\<close> for a missing value.\<close>

fun template_str :: "jsstring option \<Rightarrow> jsstring" where
  "template_str None = js ''undefined''"
| "template_str (Some s) = s"

section \<open>JavaScript numbers\<close>

text \<open>
  A Number is an IEEE 754 double: not-a-number, an infinity, negative zero, or a finite
  value, \<open>Fin 0\<close> being positive zero. The finite doubles are the rationals \<open>m * 2\<^sup>e\<close>
  with \<open>\<bar>m\<bar> < 2\<^sup>5\<^sup>3\<close> and \<open>-1074 \<le> e \<le> 971\<close>; every operation below returns one of them.
\<close>

datatype number = NaN | PInf | NInf | NegZero | Fin rat

text \<open>\<open>ilog2 x\<close> is \<open>\<lfloor>log\<^sub>2 x\<rfloor>\<close>, for a positive \<open>x\<close>.\<close>

definition ilog2 :: "rat \<Rightarrow> int" where
  "ilog2 x = (if 1 \<le> x then bitlen \<lfloor>x\<rfloor> - 1 else - bitlen (\<lceil>1 / x\<rceil> - 1))"

text \<open>
  The doubles near a positive \<open>x\<close> are the multiples of \<open>2\<^sup>e\<close>, where \<open>e\<close> leaves 53
  significant bits and is at least -1074, the exponent of the subnormal numbers.
\<close>

definition grid_exponent :: "rat \<Rightarrow> int" where
  "grid_exponent x = max (ilog2 x - 52) (- 1074)"

text \<open>Rounding to the nearest integer, a tie going to the even one.\<close>

definition round_even :: "rat \<Rightarrow> int" where
  "round_even x =
     (let f = \<lfloor>x\<rfloor>; d = x - of_int f
      in if d < 1 / 2 then f else if 1 / 2 < d then f + 1 else if even f then f else f + 1)"

text \<open>The multiple of the grid nearest to a positive \<open>x\<close>, and the same with signs.\<close>

definition round_magnitude :: "rat \<Rightarrow> rat" where
  "round_magnitude x = of_int (round_even (x / 2 powi grid_exponent x)) * 2 powi grid_exponent x"

definition nearest :: "rat \<Rightarrow> rat" where
  "nearest x = (if x = 0 then 0 else sgn x * round_magnitude \<bar>x\<bar>)"

text \<open>
  The Number a real value is rounded to (round to nearest, ties to even): an infinity from
  \<open>2\<^sup>1\<^sup>0\<^sup>2\<^sup>4\<close> on, a zero with the sign of the value when it is too small.
\<close>

definition rnd :: "rat \<Rightarrow> number" where
  "rnd x =
     (let y = nearest x
      in if 2 ^ 1024 \<le> \<bar>y\<bar> then (if x < 0 then NInf else PInf)
         else if y = 0 \<and> x < 0 then NegZero
         else Fin y)"

fun finite_value :: "number \<Rightarrow> rat" where
  "finite_value (Fin q) = q"
| "finite_value _ = 0"

fun is_finite :: "number \<Rightarrow> bool" where
  "is_finite (Fin q) = True"
| "is_finite NegZero = True"
| "is_finite _ = False"

fun negative :: "number \<Rightarrow> bool" where
  "negative (Fin q) = (q < 0)"
| "negative NegZero = True"
| "negative NInf = True"
| "negative _ = False"

fun js_neg :: "number \<Rightarrow> number" where
  "js_neg NaN = NaN"
| "js_neg PInf = NInf"
| "js_neg NInf = PInf"
| "js_neg NegZero = Fin 0"
| "js_neg (Fin q) = (if q = 0 then NegZero else Fin (- q))"

text \<open>The operators \<open>+\<close>, \<open>-\<close>, \<open>*\<close> and \<open>>\<close> on Numbers.\<close>

definition js_add :: "number \<Rightarrow> number \<Rightarrow> number" where
  "js_add x y =
     (if x = NaN \<or> y = NaN then NaN
      else if \<not> is_finite x then (if \<not> is_finite y \<and> y \<noteq> x then NaN else x)
      else if \<not> is_finite y then y
      else if finite_value x + finite_value y = 0
        then (if x = NegZero \<and> y = NegZero then NegZero else Fin 0)
      else rnd (finite_value x + finite_value y))"

definition js_sub :: "number \<Rightarrow> number \<Rightarrow> number" where
  "js_sub x y = js_add x (js_neg y)"

definition js_mul :: "number \<Rightarrow> number \<Rightarrow> number" where
  "js_mul x y =
     (if x = NaN \<or> y = NaN then NaN
      else if is_finite x \<and> is_finite y then
        (if finite_value x * finite_value y = 0
           then (if negative x \<noteq> negative y then NegZero else Fin 0)
         else rnd (finite_value x * finite_value y))
      else if (is_finite x \<and> finite_value x = 0) \<or> (is_finite y \<and> finite_value y = 0) then NaN
      else if negative x \<noteq> negative y then NInf
      else PInf)"

definition js_gt :: "number \<Rightarrow> number \<Rightarrow> bool" where
  "js_gt x y =
     (if x = NaN \<or> y = NaN then False
      else if x = PInf then y \<noteq> PInf
      else if y = NInf then x \<noteq> NInf
      else if x = NInf \<or> y = PInf then False
      else finite_value y < finite_value x)"

text \<open>
  A property of a parsed JSON object that the code uses as a number. It is declared a
  \<open>number\<close> and nothing checks it: it may be absent, \<open>null\<close>, a Number, or a value of
  another type (a string, a boolean, an array, an object), which is given here by the
  Number that the arithmetic operators convert it to. \<open>ToNumber\<close> is that conversion.
\<close>

datatype numeric = Undefined | Null | Number number | Coerced number

fun ToNumber :: "numeric \<Rightarrow> number" where
  "ToNumber Undefined = NaN"
| "ToNumber Null = Fin 0"
| "ToNumber (Number x) = x"
| "ToNumber (Coerced x) = x"

text \<open>
  What \<open>JSON.parse(JSON.stringify(...))\<close> gives back for a property that holds a
  Number, as \<open>expiresAt\<close> does when the code writes it: \<open>JSON.stringify\<close> writes
  \<open>null\<close> for a Number that is not finite and \<open>0\<close> for negative zero. In the other
  cases the property is read back as it was: an \<open>undefined\<close> property is left out and
  \<open>null\<close> stays.
\<close>

fun json_numeric :: "numeric \<Rightarrow> numeric" where
  "json_numeric (Number (Fin q)) = Number (Fin q)"
| "json_numeric (Number NegZero) = Number (Fin 0)"
| "json_numeric (Number _) = Null"
| "json_numeric v = v"

text \<open>
  The whole numbers on which the arithmetic of Numbers is exact
  (\<open>Number.isSafeInteger\<close>).
\<close>

definition safe_integer :: "int \<Rightarrow> bool" where
  "safe_integer i = (\<bar>i\<bar> < 2 ^ 53)"

text \<open>\<open>Date.now()\<close> as a Number, from the whole number of milliseconds of the clock.\<close>

definition time_value :: "int \<Rightarrow> number" where
  "time_value t = rnd (of_int t)"

section \<open>btoa and atob\<close>

definition b64_digit :: "nat \<Rightarrow> jschar" where
  "b64_digit n =
     (if n < 26 then of_nat (65 + n)
      else if n < 52 then of_nat (71 + n)
      else if n < 62 then of_nat (n - 4)
      else if n = 62 then 0x2B else 0x2F)"

definition b64_value :: "jschar \<Rightarrow> nat option" where
  "b64_value c =
     (let n = unat c in
      if 65 \<le> n \<and> n \<le> 90 then Some (n - 65)
      else if 97 \<le> n \<and> n \<le> 122 then Some (n - 71)
      else if 48 \<le> n \<and> n \<le> 57 then Some (n + 4)
      else if n = 43 then Some 62
      else if n = 47 then Some 63
      else None)"

fun b64_encode :: "nat list \<Rightarrow> jsstring" where
  "b64_encode (a # b # c # bs) =
     b64_digit (a div 4) # b64_digit ((a mod 4) * 16 + b div 16)
       # b64_digit ((b mod 16) * 4 + c div 64) # b64_digit (c mod 64) # b64_encode bs"
| "b64_encode [a, b] =
     [b64_digit (a div 4), b64_digit ((a mod 4) * 16 + b div 16), b64_digit ((b mod 16) * 4), 0x3D]"
| "b64_encode [a] = [b64_digit (a div 4), b64_digit ((a mod 4) * 16), 0x3D, 0x3D]"
| "b64_encode [] = []"

definition btoa :: "jsstring \<Rightarrow> exn + jsstring" where
  "btoa s =
     (if list_all (\<lambda>c. c \<le> 0xFF) s then Inr (b64_encode (map unat s))
      else Inl (Exn InvalidCharacterError (js ''Invalid character'')))"

definition is_ascii_whitespace :: "jschar \<Rightarrow> bool" where
  "is_ascii_whitespace c = (c = 0x09 \<or> c = 0x0A \<or> c = 0x0C \<or> c = 0x0D \<or> c = 0x20)"

definition strip_padding :: "jsstring \<Rightarrow> jsstring" where
  "strip_padding s =
     (if length s mod 4 = 0 then
        (case rev s of
           x # y # r \<Rightarrow> if x = 0x3D \<and> y = 0x3D then rev r else if x = 0x3D then rev (y # r) else s
         | _ \<Rightarrow> s)
      else s)"

fun sextets :: "jsstring \<Rightarrow> nat list option" where
  "sextets [] = Some []"
| "sextets (c # cs) =
     (case b64_value c of
        None \<Rightarrow> None
      | Some v \<Rightarrow> (case sextets cs of None \<Rightarrow> None | Some vs \<Rightarrow> Some (v # vs)))"

fun b64_decode :: "nat list \<Rightarrow> nat list" where
  "b64_decode (p # q # r # s # vs) =
     (p * 4 + q div 16) # ((q mod 16) * 16 + r div 4) # ((r mod 4) * 64 + s) # b64_decode vs"
| "b64_decode [p, q, r] = [p * 4 + q div 16, (q mod 16) * 16 + r div 4]"
| "b64_decode [p, q] = [p * 4 + q div 16]"
| "b64_decode vs = []"

definition atob :: "jsstring \<Rightarrow> exn + jsstring" where
  "atob s =
     (let d = strip_padding (filter (\<lambda>c. \<not> is_ascii_whitespace c) s) in
      if length d mod 4 = 1 then Inl (Exn InvalidCharacterError (js ''Invalid character''))
      else case sextets d of
             None \<Rightarrow> Inl (Exn InvalidCharacterError (js ''Invalid character''))
           | Some vs \<Rightarrow> Inr (map of_nat (b64_decode vs)))"

section \<open>JSON\<close>

datatype 'n json =
    JNull | JBool bool | JNum 'n | JStr jsstring
  | JArr "'n json list" | JObj "(jsstring \<times> 'n json) list"

definition hex_digit :: "nat \<Rightarrow> jschar" where
  "hex_digit n = (if n < 10 then of_nat (48 + n) else of_nat (87 + n))"

definition unicode_escape :: "jschar \<Rightarrow> jsstring" where
  "unicode_escape c =
     (let n = unat c in
      [0x5C, 0x75, hex_digit (n div 4096), hex_digit (n div 256 mod 16),
       hex_digit (n div 16 mod 16), hex_digit (n mod 16)])"

definition is_high_surrogate :: "jschar \<Rightarrow> bool" where
  "is_high_surrogate c = (0xD800 \<le> c \<and> c \<le> 0xDBFF)"

definition is_low_surrogate :: "jschar \<Rightarrow> bool" where
  "is_low_surrogate c = (0xDC00 \<le> c \<and> c \<le> 0xDFFF)"

definition quote_unit :: "jschar \<Rightarrow> jsstring" where
  "quote_unit c =
     (if c = 0x08 then [0x5C, 0x62]
      else if c = 0x09 then [0x5C, 0x74]
      else if c = 0x0A then [0x5C, 0x6E]
      else if c = 0x0C then [0x5C, 0x66]
      else if c = 0x0D then [0x5C, 0x72]
      else if c = 0x22 then [0x5C, 0x22]
      else if c = 0x5C then [0x5C, 0x5C]
      else if c < 0x20 \<or> is_high_surrogate c \<or> is_low_surrogate c then unicode_escape c
      else [c])"

fun quote_units :: "jsstring \<Rightarrow> jsstring" where
  "quote_units [] = []"
| "quote_units [c] = quote_unit c"
| "quote_units (c # d # cs) =
     (if is_high_surrogate c \<and> is_low_surrogate d then c # d # quote_units cs
      else quote_unit c @ quote_units (d # cs))"

definition QuoteJSONString :: "jsstring \<Rightarrow> jsstring" where
  "QuoteJSONString s = 0x22 # quote_units s @ [0x22]"

fun commas :: "jsstring list \<Rightarrow> jsstring" where
  "commas [] = []"
| "commas [x] = x"
| "commas (x # y # xs) = x @ 0x2C # commas (y # xs)"

fun JSON_stringify :: "('n \<Rightarrow> jsstring) \<Rightarrow> 'n json \<Rightarrow> jsstring"
  and stringify_elements :: "('n \<Rightarrow> jsstring) \<Rightarrow> 'n json list \<Rightarrow> jsstring list"
  and stringify_members :: "('n \<Rightarrow> jsstring) \<Rightarrow> (jsstring \<times> 'n json) list \<Rightarrow> jsstring list" where
  "JSON_stringify pr JNull = js ''null''"
| "JSON_stringify pr (JBool b) = (if b then js ''true'' else js ''false'')"
| "JSON_stringify pr (JNum n) = pr n"
| "JSON_stringify pr (JStr s) = QuoteJSONString s"
| "JSON_stringify pr (JArr vs) = 0x5B # commas (stringify_elements pr vs) @ [0x5D]"
| "JSON_stringify pr (JObj kvs) = 0x7B # commas (stringify_members pr kvs) @ [0x7D]"
| "stringify_elements pr [] = []"
| "stringify_elements pr (v # vs) = JSON_stringify pr v # stringify_elements pr vs"
| "stringify_members pr [] = []"
| "stringify_members pr ((k, v) # kvs) =
     (QuoteJSONString k @ 0x3A # JSON_stringify pr v) # stringify_members pr kvs"


text \<open>JSON.parse\<close>

definition is_json_ws :: "jschar \<Rightarrow> bool" where
  "is_json_ws c = (c = 0x09 \<or> c = 0x0A \<or> c = 0x0D \<or> c = 0x20)"

definition skip_ws :: "jsstring \<Rightarrow> jsstring" where
  "skip_ws cs = dropWhile is_json_ws cs"

definition is_digit :: "jschar \<Rightarrow> bool" where
  "is_digit c = (0x30 \<le> c \<and> c \<le> 0x39)"

definition hex_value :: "jschar \<Rightarrow> nat option" where
  "hex_value c =
     (let n = unat c in
      if 48 \<le> n \<and> n \<le> 57 then Some (n - 48)
      else if 97 \<le> n \<and> n \<le> 102 then Some (n - 87)
      else if 65 \<le> n \<and> n \<le> 70 then Some (n - 55)
      else None)"

definition hex4 :: "jschar \<Rightarrow> jschar \<Rightarrow> jschar \<Rightarrow> jschar \<Rightarrow> jschar option" where
  "hex4 a b c d =
     (case (hex_value a, hex_value b, hex_value c, hex_value d) of
        (Some p, Some q, Some r, Some s) \<Rightarrow> Some (of_nat (p * 4096 + q * 256 + r * 16 + s))
      | _ \<Rightarrow> None)"

definition simple_escape :: "jschar \<Rightarrow> jschar option" where
  "simple_escape c =
     (if c = 0x22 then Some 0x22
      else if c = 0x5C then Some 0x5C
      else if c = 0x2F then Some 0x2F
      else if c = 0x62 then Some 0x08
      else if c = 0x66 then Some 0x0C
      else if c = 0x6E then Some 0x0A
      else if c = 0x72 then Some 0x0D
      else if c = 0x74 then Some 0x09
      else None)"

definition cons_result :: "jschar \<Rightarrow> (jsstring \<times> jsstring) option \<Rightarrow> (jsstring \<times> jsstring) option" where
  "cons_result c r = (case r of None \<Rightarrow> None | Some (s, rest) \<Rightarrow> Some (c # s, rest))"

text \<open>The characters of a string literal after its opening quote, and what follows
  the closing quote.\<close>

fun string_chars :: "jsstring \<Rightarrow> (jsstring \<times> jsstring) option" where
  "string_chars [] = None"
| "string_chars (c # cs) =
     (if c = 0x22 then Some ([], cs)
      else if c = 0x5C then
        (case cs of
           [] \<Rightarrow> None
         | e # cs1 \<Rightarrow>
             if e = 0x75 then
               (case cs1 of
                  h1 # h2 # h3 # h4 # cs2 \<Rightarrow>
                    (case hex4 h1 h2 h3 h4 of
                       None \<Rightarrow> None
                     | Some u \<Rightarrow> cons_result u (string_chars cs2))
                | _ \<Rightarrow> None)
             else
               (case simple_escape e of
                  None \<Rightarrow> None
                | Some u \<Rightarrow> cons_result u (string_chars cs1)))
      else if c < 0x20 then None
      else cons_result c (string_chars cs))"

text \<open>A number literal at the head of the input, and the rest.\<close>

definition digits :: "jsstring \<Rightarrow> jsstring \<times> jsstring" where
  "digits cs = (takeWhile is_digit cs, dropWhile is_digit cs)"

definition lex_int :: "jsstring \<Rightarrow> (jsstring \<times> jsstring) option" where
  "lex_int cs =
     (case cs of
        [] \<Rightarrow> None
      | d # r \<Rightarrow>
          if d = 0x30 then Some ([d], r)
          else if is_digit d then Some (d # fst (digits r), snd (digits r))
          else None)"

definition lex_frac :: "jsstring \<Rightarrow> (jsstring \<times> jsstring) option" where
  "lex_frac cs =
     (case cs of
        [] \<Rightarrow> Some ([], cs)
      | d # r \<Rightarrow>
          if d = 0x2E then
            (if fst (digits r) = [] then None else Some (d # fst (digits r), snd (digits r)))
          else Some ([], cs))"

definition lex_sign :: "jsstring \<Rightarrow> jsstring \<times> jsstring" where
  "lex_sign cs =
     (case cs of
        [] \<Rightarrow> ([], cs)
      | d # r \<Rightarrow> if d = 0x2B \<or> d = 0x2D then ([d], r) else ([], cs))"

definition lex_exp :: "jsstring \<Rightarrow> (jsstring \<times> jsstring) option" where
  "lex_exp cs =
     (case cs of
        [] \<Rightarrow> Some ([], cs)
      | d # r \<Rightarrow>
          if d = 0x65 \<or> d = 0x45 then
            (let (sg, r1) = lex_sign r in
             if fst (digits r1) = [] then None
             else Some (d # sg @ fst (digits r1), snd (digits r1)))
          else Some ([], cs))"

definition lex_number :: "jsstring \<Rightarrow> (jsstring \<times> jsstring) option" where
  "lex_number cs =
     (let (sg, r0) = (case cs of [] \<Rightarrow> ([], cs) | d # r \<Rightarrow> if d = 0x2D then ([d], r) else ([], cs)) in
      case lex_int r0 of
        None \<Rightarrow> None
      | Some (i, r1) \<Rightarrow>
          (case lex_frac r1 of
             None \<Rightarrow> None
           | Some (f, r2) \<Rightarrow>
               (case lex_exp r2 of
                  None \<Rightarrow> None
                | Some (x, r3) \<Rightarrow> Some (sg @ i @ f @ x, r3))))"

text \<open>Keys that are array indices come first in an object, in ascending order.\<close>

definition array_index :: "jsstring \<Rightarrow> nat option" where
  "array_index k =
     (if k \<noteq> [] \<and> list_all is_digit k \<and> (hd k \<noteq> 0x30 \<or> length k = 1) then
        (let n = foldl (\<lambda>a c. 10 * a + (unat c - 48)) 0 k in
         if n < 4294967295 then Some n else None)
      else None)"

fun has_key :: "jsstring \<Rightarrow> (jsstring \<times> 'a) list \<Rightarrow> bool" where
  "has_key k [] = False"
| "has_key k ((k', v) # kvs) = (k' = k \<or> has_key k kvs)"

fun replace_value :: "jsstring \<Rightarrow> 'a \<Rightarrow> (jsstring \<times> 'a) list \<Rightarrow> (jsstring \<times> 'a) list" where
  "replace_value k v [] = []"
| "replace_value k v ((k', v') # kvs) =
     (if k' = k then (k, v) # kvs else (k', v') # replace_value k v kvs)"

fun insert_index :: "nat \<Rightarrow> jsstring \<Rightarrow> 'a \<Rightarrow> (jsstring \<times> 'a) list \<Rightarrow> (jsstring \<times> 'a) list" where
  "insert_index i k v [] = [(k, v)]"
| "insert_index i k v ((k', v') # kvs) =
     (case array_index k' of
        None \<Rightarrow> (k, v) # (k', v') # kvs
      | Some j \<Rightarrow> if i < j then (k, v) # (k', v') # kvs else (k', v') # insert_index i k v kvs)"

text \<open>\<open>CreateDataProperty\<close> on an ordinary object, the object being the list of its
  properties in the order \<open>JSON.stringify\<close> and \<open>Object.keys\<close> read them.\<close>

definition set_property :: "(jsstring \<times> 'a) list \<Rightarrow> jsstring \<times> 'a \<Rightarrow> (jsstring \<times> 'a) list" where
  "set_property kvs kv =
     (if has_key (fst kv) kvs then replace_value (fst kv) (snd kv) kvs
      else case array_index (fst kv) of
             None \<Rightarrow> kvs @ [kv]
           | Some i \<Rightarrow> insert_index i (fst kv) (snd kv) kvs)"

datatype 'a presult = OutOfFuel | Unexpected | Parsed 'a jsstring

fun parse_value :: "(jsstring \<Rightarrow> 'n) \<Rightarrow> nat \<Rightarrow> jsstring \<Rightarrow> 'n json presult"
  and parse_elements :: "(jsstring \<Rightarrow> 'n) \<Rightarrow> nat \<Rightarrow> jsstring \<Rightarrow> 'n json list presult"
  and parse_members :: "(jsstring \<Rightarrow> 'n) \<Rightarrow> nat \<Rightarrow> jsstring \<Rightarrow> (jsstring \<times> 'n json) list presult" where
  "parse_value rd 0 cs = OutOfFuel"
| "parse_value rd (Suc n) cs =
     (case cs of
        [] \<Rightarrow> Unexpected
      | c # r \<Rightarrow>
          if c = 0x7B then
            (case skip_ws r of
               [] \<Rightarrow> Unexpected
             | d # r1 \<Rightarrow>
                 if d = 0x7D then Parsed (JObj []) r1
                 else (case parse_members rd n (d # r1) of
                         Parsed ms r2 \<Rightarrow> Parsed (JObj (foldl set_property [] ms)) r2
                       | Unexpected \<Rightarrow> Unexpected
                       | OutOfFuel \<Rightarrow> OutOfFuel))
          else if c = 0x5B then
            (case skip_ws r of
               [] \<Rightarrow> Unexpected
             | d # r1 \<Rightarrow>
                 if d = 0x5D then Parsed (JArr []) r1
                 else (case parse_elements rd n (d # r1) of
                         Parsed vs r2 \<Rightarrow> Parsed (JArr vs) r2
                       | Unexpected \<Rightarrow> Unexpected
                       | OutOfFuel \<Rightarrow> OutOfFuel))
          else if c = 0x22 then
            (case string_chars r of
               None \<Rightarrow> Unexpected
             | Some (s, r1) \<Rightarrow> Parsed (JStr s) r1)
          else if take 4 cs = js ''null'' then Parsed JNull (drop 4 cs)
          else if take 4 cs = js ''true'' then Parsed (JBool True) (drop 4 cs)
          else if take 5 cs = js ''false'' then Parsed (JBool False) (drop 5 cs)
          else (case lex_number cs of
                  None \<Rightarrow> Unexpected
                | Some (l, r1) \<Rightarrow> Parsed (JNum (rd l)) r1))"
| "parse_elements rd 0 cs = OutOfFuel"
| "parse_elements rd (Suc n) cs =
     (case parse_value rd n cs of
        Parsed v r \<Rightarrow>
          (case skip_ws r of
             [] \<Rightarrow> Unexpected
           | d # r1 \<Rightarrow>
               if d = 0x5D then Parsed [v] r1
               else if d = 0x2C then
                 (case parse_elements rd n (skip_ws r1) of
                    Parsed vs r2 \<Rightarrow> Parsed (v # vs) r2
                  | Unexpected \<Rightarrow> Unexpected
                  | OutOfFuel \<Rightarrow> OutOfFuel)
               else Unexpected)
      | Unexpected \<Rightarrow> Unexpected
      | OutOfFuel \<Rightarrow> OutOfFuel)"
| "parse_members rd 0 cs = OutOfFuel"
| "parse_members rd (Suc n) cs =
     (case cs of
        [] \<Rightarrow> Unexpected
      | q # r \<Rightarrow>
          if q \<noteq> 0x22 then Unexpected
          else (case string_chars r of
                  None \<Rightarrow> Unexpected
                | Some (k, r1) \<Rightarrow>
                    (case skip_ws r1 of
                       [] \<Rightarrow> Unexpected
                     | d # r2 \<Rightarrow>
                         if d \<noteq> 0x3A then Unexpected
                         else (case parse_value rd n (skip_ws r2) of
                                 Parsed v r3 \<Rightarrow>
                                   (case skip_ws r3 of
                                      [] \<Rightarrow> Unexpected
                                    | d # r4 \<Rightarrow>
                                        if d = 0x7D then Parsed [(k, v)] r4
                                        else if d = 0x2C then
                                          (case parse_members rd n (skip_ws r4) of
                                             Parsed ms r5 \<Rightarrow> Parsed ((k, v) # ms) r5
                                           | Unexpected \<Rightarrow> Unexpected
                                           | OutOfFuel \<Rightarrow> OutOfFuel)
                                        else Unexpected)
                               | Unexpected \<Rightarrow> Unexpected
                               | OutOfFuel \<Rightarrow> OutOfFuel))))"

definition syntax_error :: exn where
  "syntax_error = Exn SyntaxError (js ''Unexpected token in JSON'')"

definition JSON_parse :: "(jsstring \<Rightarrow> 'n) \<Rightarrow> jsstring \<Rightarrow> exn + 'n json" where
  "JSON_parse rd s =
     (case parse_value rd (Suc (2 * length s)) (skip_ws s) of
        Parsed v r \<Rightarrow> if skip_ws r = [] then Inr v else Inl syntax_error
      | Unexpected \<Rightarrow> Inl syntax_error
      | OutOfFuel \<Rightarrow> Inl syntax_error)"


text \<open>decodeURIComponent\<close>

definition pct_byte :: "jsstring \<Rightarrow> nat option" where
  "pct_byte cs =
     (case cs of
        p # a # b # r \<Rightarrow>
          if p = 0x25 then
            (case (hex_value a, hex_value b) of
               (Some x, Some y) \<Rightarrow> Some (16 * x + y)
             | _ \<Rightarrow> None)
          else None
      | _ \<Rightarrow> None)"

fun octets :: "nat \<Rightarrow> jsstring \<Rightarrow> nat list option" where
  "octets 0 cs = Some []"
| "octets (Suc n) cs =
     (case pct_byte cs of
        None \<Rightarrow> None
      | Some b \<Rightarrow> (case octets n (drop 3 cs) of None \<Rightarrow> None | Some bs \<Rightarrow> Some (b # bs)))"

text \<open>The number of octets a leading octet announces (0 when it cannot lead).\<close>

definition utf8_length :: "nat \<Rightarrow> nat" where
  "utf8_length b =
     (if b < 0x80 then 1
      else if b < 0xC0 then 0
      else if b < 0xE0 then 2
      else if b < 0xF0 then 3
      else if b < 0xF8 then 4
      else 0)"

definition is_continuation :: "nat \<Rightarrow> bool" where
  "is_continuation b = (0x80 \<le> b \<and> b < 0xC0)"

definition utf8_code_point :: "nat \<Rightarrow> nat list \<Rightarrow> nat option" where
  "utf8_code_point b bs =
     (if \<not> list_all is_continuation bs then None
      else
        (let v = foldl (\<lambda>a c. a * 64 + c mod 64) (b mod (2 ^ (7 - utf8_length b))) bs in
         if utf8_length b = 2 \<and> 0x80 \<le> v then Some v
         else if utf8_length b = 3 \<and> 0x800 \<le> v \<and> \<not> (0xD800 \<le> v \<and> v \<le> 0xDFFF) then Some v
         else if utf8_length b = 4 \<and> 0x10000 \<le> v \<and> v \<le> 0x10FFFF then Some v
         else None))"

definition utf16_encode :: "nat \<Rightarrow> jsstring" where
  "utf16_encode v =
     (if v < 0x10000 then [of_nat v]
      else [of_nat (0xD800 + (v - 0x10000) div 0x400), of_nat (0xDC00 + (v - 0x10000) mod 0x400)])"

fun decode_units :: "jsstring \<Rightarrow> jsstring option" where
  "decode_units [] = Some []"
| "decode_units (c # cs) =
     (if c \<noteq> 0x25 then map_option ((#) c) (decode_units cs)
      else
        (case pct_byte (c # cs) of
           None \<Rightarrow> None
         | Some b \<Rightarrow>
             if b < 0x80 then map_option ((#) (of_nat b)) (decode_units (drop 2 cs))
             else if utf8_length b = 0 then None
             else
               (case octets (utf8_length b - 1) (drop 2 cs) of
                  None \<Rightarrow> None
                | Some bs \<Rightarrow>
                    (case utf8_code_point b bs of
                       None \<Rightarrow> None
                     | Some v \<Rightarrow>
                         map_option ((@) (utf16_encode v))
                           (decode_units (drop (2 + 3 * (utf8_length b - 1)) cs))))))"

definition decodeURIComponent :: "jsstring \<Rightarrow> exn + jsstring" where
  "decodeURIComponent s =
     (case decode_units s of
        None \<Rightarrow> Inl (Exn URIError (js ''URI malformed''))
      | Some r \<Rightarrow> Inr r)"

section \<open>Requests, responses, the key-value store and the outside world\<close>

record request =
  origin :: jsstring
  query :: "jsstring \<Rightarrow> jsstring option"

text \<open>\<open>new URL(path, c.req.url).href\<close> for an absolute path.\<close>

definition url_href :: "string \<Rightarrow> request \<Rightarrow> jsstring" where
  "url_href path req = origin req @ js path"

record env =
  GITHUB_CLIENT_ID :: jsstring
  GITHUB_CLIENT_SECRET :: jsstring
  COOKIE_ENCRYPTION_KEY :: jsstring
  MS_CLIENT_ID :: jsstring
  MS_CLIENT_SECRET :: jsstring

text \<open>
  The body of a response: the text of \<open>c.text\<close>, or one of the HTML templates of the
  Microsoft callback with the values it interpolates.
\<close>

datatype body =
    TextBody jsstring
  | AuthorizationFailedPage jsstring
  | SuccessPage jsstring jsstring
  | ErrorPage jsstring jsstring
  | NoBody

record response =
  status :: nat
  headers :: "(jsstring \<times> jsstring) list"
  body :: body

definition c_text :: "jsstring \<Rightarrow> nat \<Rightarrow> response" where
  "c_text t s = \<lparr>status = s, headers = [], body = TextBody t\<rparr>"

definition c_html :: "body \<Rightarrow> nat \<Rightarrow> response" where
  "c_html b s = \<lparr>status = s, headers = [], body = b\<rparr>"

definition c_redirect :: "jsstring \<Rightarrow> response" where
  "c_redirect u = \<lparr>status = 302, headers = [(js ''location'', u)], body = NoBody\<rparr>"

text \<open>
  The types \<open>MicrosoftTokenResponse\<close> and \<open>MicrosoftUserInfo\<close>. The code computes with
  \<open>expires_in\<close> and checks nothing about it, so the field is whatever the body held
  there: a Number, \<open>null\<close>, or nothing.
\<close>

record token_response =
  access_token :: jsstring
  refresh_token :: "jsstring option"
  expires_in :: numeric
  token_type :: jsstring
  granted_scope :: jsstring

record user_info =
  user_id :: jsstring
  displayName :: jsstring
  mail :: jsstring
  userPrincipalName :: jsstring

text \<open>
  The record the Microsoft callback stores under \<open>ms_tokens:{userId}\<close>. Times are
  milliseconds since the epoch, as \<open>Date.now()\<close> gives them. \<open>stored\<close> is the record
  as it is read back from the store, after \<open>JSON.stringify\<close> and \<open>JSON.parse\<close>.
\<close>

record stored_user =
  su_id :: jsstring
  su_displayName :: jsstring
  su_email :: jsstring

record token_data =
  accessToken :: jsstring
  refreshToken :: "jsstring option"
  expiresAt :: numeric
  userInfo :: stored_user

definition stored :: "token_data \<Rightarrow> token_data" where
  "stored t = t\<lparr>expiresAt := json_numeric (expiresAt t)\<rparr>"

text \<open>
  \<open>OAUTH_KV\<close>. The code uses two families of keys, \<open>ms_oauth_state:{state}\<close> and
  \<open>ms_tokens:{userId}\<close>; their prefixes differ, so the store is one map per family,
  from the part of the key after the prefix. The values are the records whose JSON text
  the code writes: \<open>{ userId }\<close> for a pending state and the token record. An entry
  whose TTL has run out is an entry that is not there.
\<close>

record store =
  ms_oauth_state :: "jsstring \<Rightarrow> jsstring option"
  ms_tokens :: "jsstring \<Rightarrow> token_data option"

datatype kv_value = StateData jsstring | TokenData token_data

record fetch_request =
  fr_url :: jsstring
  fr_method :: jsstring
  fr_headers :: "(jsstring \<times> jsstring) list"
  fr_form :: "(jsstring \<times> jsstring) list"

text \<open>
  What \<open>fetch\<close> resolves to: the status, the body as \<open>response.text()\<close> reads it, and
  what \<open>response.json()\<close> gives at the type the caller declares (it throws on a body
  that is not JSON).
\<close>

record 'a fetch_response =
  fs_status :: nat
  fs_text :: jsstring
  fs_json :: "exn + 'a"

definition ok :: "'a fetch_response \<Rightarrow> bool" where
  "ok r = (200 \<le> fs_status r \<and> fs_status r \<le> 299)"

text \<open>What a handler does besides answering, in the order it does it.\<close>

datatype logarg = LStr jsstring | LExn exn | LPairs "(jsstring \<times> jsstring) list"

datatype effect =
    KvGet jsstring
  | KvPut jsstring kv_value nat
  | KvDelete jsstring
  | FetchCall fetch_request
  | ConsoleLog "logarg list"
  | ConsoleError "logarg list"

text \<open>
  The world outside one invocation of the Microsoft routes: the token endpoint, the Graph
  endpoint, either of which may fail to answer (\<open>fetch\<close> rejects), and the clock,
  \<open>date_now w k\<close> being the whole number of milliseconds that the \<open>k\<close>-th call of
  \<open>Date.now()\<close> returns.
\<close>

record ms_world =
  fetch_token :: "fetch_request \<Rightarrow> exn + token_response fetch_response"
  fetch_user :: "fetch_request \<Rightarrow> exn + user_info fetch_response"
  date_now :: "nat \<Rightarrow> int"

section \<open>The Microsoft routes\<close>

definition MICROSOFT_AUTH_URL :: jsstring where
  "MICROSOFT_AUTH_URL = js ''https://login.microsoftonline.com/common/oauth2/v2.0/authorize''"

definition MICROSOFT_TOKEN_URL :: jsstring where
  "MICROSOFT_TOKEN_URL = js ''https://login.microsoftonline.com/common/oauth2/v2.0/token''"

definition MICROSOFT_GRAPH_URL :: jsstring where
  "MICROSOFT_GRAPH_URL = js ''https://graph.microsoft.com/v1.0''"

definition MICROSOFT_SCOPES :: jsstring where
  "MICROSOFT_SCOPES =
     js ''offline_access User.Read Mail.Read Mail.Send Calendars.Read Calendars.ReadWrite Contacts.Read''"

definition ms_oauth_state_key :: "jsstring \<Rightarrow> jsstring" where
  "ms_oauth_state_key state = js ''ms_oauth_state:'' @ state"

definition ms_tokens_key :: "jsstring \<Rightarrow> jsstring" where
  "ms_tokens_key userId = js ''ms_tokens:'' @ userId"

text \<open>\<open>90 * 24 * 60 * 60\<close> seconds.\<close>

definition TOKEN_TTL :: nat where
  "TOKEN_TTL = 90 * 24 * 60 * 60"

definition form_headers :: "(jsstring \<times> jsstring) list" where
  "form_headers = [(js ''Content-Type'', js ''application/x-www-form-urlencoded'')]"

text \<open>\<open>exchangeCodeForToken\<close>: the result or the exception, and the call made.\<close>

definition exchange_request :: "env \<Rightarrow> request \<Rightarrow> jsstring \<Rightarrow> fetch_request" where
  "exchange_request e req code =
     \<lparr>fr_url = MICROSOFT_TOKEN_URL, fr_method = js ''POST'', fr_headers = form_headers,
      fr_form =
        [(js ''client_id'', MS_CLIENT_ID e),
         (js ''client_secret'', MS_CLIENT_SECRET e),
         (js ''code'', code),
         (js ''redirect_uri'', url_href ''/microsoft/callback'' req),
         (js ''grant_type'', js ''authorization_code''),
         (js ''scope'', MICROSOFT_SCOPES)]\<rparr>"

definition exchangeCodeForToken ::
  "ms_world \<Rightarrow> env \<Rightarrow> request \<Rightarrow> jsstring \<Rightarrow> (exn + token_response) \<times> effect list" where
  "exchangeCodeForToken w e req code =
     (let rq = exchange_request e req code in
      case fetch_token w rq of
        Inl ex \<Rightarrow> (Inl ex, [FetchCall rq])
      | Inr response \<Rightarrow>
          if \<not> ok response
          then (Inl (Exn Error (js ''Token exchange failed: '' @ fs_text response)), [FetchCall rq])
          else (fs_json response, [FetchCall rq]))"

definition user_info_request :: "jsstring \<Rightarrow> fetch_request" where
  "user_info_request token =
     \<lparr>fr_url = MICROSOFT_GRAPH_URL @ js ''/me'', fr_method = js ''GET'',
      fr_headers = [(js ''Authorization'', js ''Bearer '' @ token)], fr_form = []\<rparr>"

definition getMicrosoftUserInfo ::
  "ms_world \<Rightarrow> jsstring \<Rightarrow> (exn + user_info) \<times> effect list" where
  "getMicrosoftUserInfo w token =
     (let rq = user_info_request token in
      case fetch_user w rq of
        Inl ex \<Rightarrow> (Inl ex, [FetchCall rq])
      | Inr response \<Rightarrow>
          if \<not> ok response
          then (Inl (Exn Error (js ''Failed to get user info: '' @ fs_text response)), [FetchCall rq])
          else (fs_json response, [FetchCall rq]))"

definition refresh_request :: "env \<Rightarrow> jsstring \<Rightarrow> fetch_request" where
  "refresh_request e rt =
     \<lparr>fr_url = MICROSOFT_TOKEN_URL, fr_method = js ''POST'', fr_headers = form_headers,
      fr_form =
        [(js ''client_id'', MS_CLIENT_ID e),
         (js ''client_secret'', MS_CLIENT_SECRET e),
         (js ''refresh_token'', rt),
         (js ''grant_type'', js ''refresh_token''),
         (js ''scope'', MICROSOFT_SCOPES)]\<rparr>"

definition refreshMicrosoftToken ::
  "ms_world \<Rightarrow> env \<Rightarrow> jsstring \<Rightarrow> (exn + token_response) \<times> effect list" where
  "refreshMicrosoftToken w e rt =
     (let rq = refresh_request e rt in
      case fetch_token w rq of
        Inl ex \<Rightarrow> (Inl ex, [FetchCall rq])
      | Inr response \<Rightarrow>
          if \<not> ok response
          then (Inl (Exn Error (js ''Token refresh failed: '' @ fs_text response)), [FetchCall rq])
          else (fs_json response, [FetchCall rq]))"

text \<open>
  The \<open>try\<close> block of \<open>GET /microsoft/callback\<close>, entered with a truthy code and
  state: the response or the exception thrown, the store and the effects.
\<close>

definition ms_email :: "user_info \<Rightarrow> jsstring" where
  "ms_email u = (if mail u \<noteq> [] then mail u else userPrincipalName u)"

definition new_token_data :: "ms_world \<Rightarrow> token_response \<Rightarrow> user_info \<Rightarrow> token_data" where
  "new_token_data w tokenResponse u =
     \<lparr>accessToken = access_token tokenResponse,
      refreshToken = refresh_token tokenResponse,
      expiresAt = Number (js_add (time_value (date_now w 0))
                            (js_mul (ToNumber (expires_in tokenResponse)) (Fin 1000))),
      userInfo = \<lparr>su_id = user_id u, su_displayName = displayName u, su_email = ms_email u\<rparr>\<rparr>"

definition ms_callback_try ::
  "ms_world \<Rightarrow> env \<Rightarrow> request \<Rightarrow> jsstring \<Rightarrow> jsstring \<Rightarrow> store
     \<Rightarrow> (exn + response) \<times> store \<times> effect list" where
  "ms_callback_try w e req code state st =
     (case ms_oauth_state st state of
        None \<Rightarrow>
          (Inl (Exn Error (js ''Invalid or expired state parameter'')), st,
           [KvGet (ms_oauth_state_key state)])
      | Some userId \<Rightarrow>
          (let st1 = st\<lparr>ms_oauth_state := (ms_oauth_state st)(state := None)\<rparr>;
               fx1 = [KvGet (ms_oauth_state_key state), KvDelete (ms_oauth_state_key state)]
           in case exchangeCodeForToken w e req code of
                (Inl ex, fx2) \<Rightarrow> (Inl ex, st1, fx1 @ fx2)
              | (Inr tokenResponse, fx2) \<Rightarrow>
                  (case getMicrosoftUserInfo w (access_token tokenResponse) of
                     (Inl ex, fx3) \<Rightarrow> (Inl ex, st1, fx1 @ fx2 @ fx3)
                   | (Inr u, fx3) \<Rightarrow>
                       (let tokenData = new_token_data w tokenResponse u;
                            st2 = st1\<lparr>ms_tokens := (ms_tokens st1)(userId \<mapsto> stored tokenData)\<rparr>
                        in (Inr (c_html (SuccessPage (displayName u) (ms_email u)) 200), st2,
                            fx1 @ fx2 @ fx3
                              @ [KvPut (ms_tokens_key userId) (TokenData (stored tokenData)) TOKEN_TTL])))))"

text \<open>\<open>app.get("/microsoft/callback")\<close>.\<close>

definition ms_callback :: "ms_world \<Rightarrow> env \<Rightarrow> request \<Rightarrow> store \<Rightarrow> response \<times> store \<times> effect list" where
  "ms_callback w e req st =
     (let code = query req (js ''code'');
          state = query req (js ''state'');
          error = query req (js ''error'');
          errorDescription = query req (js ''error_description'')
      in if truthy_str error then
           (c_html (AuthorizationFailedPage
                      (if truthy_str errorDescription then template_str errorDescription
                       else template_str error)) 200,
            st,
            [ConsoleError [LStr (js ''Microsoft OAuth error: '' @ template_str error @ js '' - ''
                                   @ template_str errorDescription)]])
         else if \<not> truthy_str code \<or> \<not> truthy_str state then
           (c_text (js ''Missing code or state parameter'') 400, st, [])
         else
           (case ms_callback_try w e req (template_str code) (template_str state) st of
              (Inr r, st', fx) \<Rightarrow> (r, st', fx)
            | (Inl ex, st', fx) \<Rightarrow>
                (c_html (ErrorPage (message ex) (template_str (query req (js ''userId'')))) 500,
                 st',
                 fx @ [ConsoleError [LStr (js ''Microsoft OAuth callback error:''), LExn ex]])))"

text \<open>\<open>getMicrosoftTokens\<close>: what it returns, the store it leaves and its effects.\<close>

record token_view =
  tv_accessToken :: jsstring
  tv_refreshToken :: "jsstring option"
  tv_expiresAt :: numeric

definition view :: "token_data \<Rightarrow> token_view" where
  "view t = \<lparr>tv_accessToken = accessToken t, tv_refreshToken = refreshToken t,
             tv_expiresAt = expiresAt t\<rparr>"

definition refreshed :: "ms_world \<Rightarrow> token_data \<Rightarrow> token_response \<Rightarrow> token_data" where
  "refreshed w tokens newTokens =
     tokens\<lparr>accessToken := access_token newTokens,
            refreshToken :=
              (if truthy_str (refresh_token newTokens) then refresh_token newTokens
               else refreshToken tokens),
            expiresAt := Number (js_add (time_value (date_now w 1))
                                   (js_mul (ToNumber (expires_in newTokens)) (Fin 1000)))\<rparr>"

definition getMicrosoftTokens ::
  "ms_world \<Rightarrow> env \<Rightarrow> jsstring \<Rightarrow> store \<Rightarrow> token_view option \<times> store \<times> effect list" where
  "getMicrosoftTokens w e userId st =
     (case ms_tokens st userId of
        None \<Rightarrow> (None, st, [KvGet (ms_tokens_key userId)])
      | Some tokens \<Rightarrow>
          if truthy_str (refreshToken tokens)
             \<and> js_gt (time_value (date_now w 0)) (js_sub (ToNumber (expiresAt tokens)) (Fin 300000))
          then
            (case refreshMicrosoftToken w e (template_str (refreshToken tokens)) of
               (Inr newTokens, fx) \<Rightarrow>
                 (let tokens' = refreshed w tokens newTokens in
                  (Some (view tokens'),
                   st\<lparr>ms_tokens := (ms_tokens st)(userId \<mapsto> stored tokens')\<rparr>,
                   [KvGet (ms_tokens_key userId)] @ fx
                     @ [KvPut (ms_tokens_key userId) (TokenData (stored tokens')) TOKEN_TTL]))
             | (Inl ex, fx) \<Rightarrow>
                 (Some (view tokens), st,
                  [KvGet (ms_tokens_key userId)] @ fx
                    @ [ConsoleError [LStr (js ''Failed to refresh Microsoft token:''), LExn ex]]))
          else (Some (view tokens), st, [KvGet (ms_tokens_key userId)]))"

section \<open>Reading a trace of effects\<close>

fun is_fetch :: "effect \<Rightarrow> bool" where
  "is_fetch (FetchCall _) = True"
| "is_fetch _ = False"

fun is_put :: "effect \<Rightarrow> bool" where
  "is_put (KvPut _ _ _) = True"
| "is_put _ = False"

fun is_console_log :: "effect \<Rightarrow> bool" where
  "is_console_log (ConsoleLog _) = True"
| "is_console_log _ = False"

section \<open>The GitHub routes\<close>

text \<open>
  A value that \<open>JSON.parse\<close> returned, used as the code uses \<open>oauthReqInfo\<close>:
  reading a property of \<open>null\<close> throws a \<open>TypeError\<close>; a key that no prototype
  defines (\<open>clientId\<close>, \<open>scope\<close>) is found on an object only as its own property
  and is \<open>undefined\<close> (\<open>None\<close>) on every other value.
\<close>

fun lookup :: "jsstring \<Rightarrow> (jsstring \<times> 'a) list \<Rightarrow> 'a option" where
  "lookup k [] = None"
| "lookup k ((k', v) # kvs) = (if k' = k then Some v else lookup k kvs)"

definition null_property_error :: "string \<Rightarrow> exn" where
  "null_property_error k =
     Exn TypeError (js ''Cannot read properties of null (reading '' @ [0x27] @ js k @ [0x27] @ js '')'')"

fun get_property :: "'n json \<Rightarrow> string \<Rightarrow> exn + 'n json option" where
  "get_property JNull k = Inl (null_property_error k)"
| "get_property (JObj kvs) k = Inr (lookup (js k) kvs)"
| "get_property v k = Inr None"

text \<open>\<open>ToBoolean\<close>, with the platform's test of a number (false for zero and NaN).\<close>

fun truthy :: "('n \<Rightarrow> bool) \<Rightarrow> 'n json option \<Rightarrow> bool" where
  "truthy nt None = False"
| "truthy nt (Some JNull) = False"
| "truthy nt (Some (JBool b)) = b"
| "truthy nt (Some (JNum n)) = nt n"
| "truthy nt (Some (JStr s)) = (s \<noteq> [])"
| "truthy nt (Some (JArr vs)) = True"
| "truthy nt (Some (JObj kvs)) = True"

record upstream_authorize_params =
  ua_client_id :: jsstring
  ua_redirect_uri :: jsstring
  ua_scope :: jsstring
  ua_state :: jsstring
  ua_upstream_url :: jsstring

record upstream_token_params =
  ut_client_id :: jsstring
  ut_client_secret :: jsstring
  ut_code :: "jsstring option"
  ut_redirect_uri :: jsstring
  ut_upstream_url :: jsstring

record github_user =
  login :: jsstring
  name :: "jsstring option"
  email :: "jsstring option"

record props =
  p_accessToken :: jsstring
  p_email :: "jsstring option"
  p_login :: jsstring
  p_name :: "jsstring option"
  microsoftAccessToken :: "jsstring option"
  microsoftRefreshToken :: "jsstring option"
  microsoftTokenExpiry :: "numeric option"

record 'n complete_args =
  ca_label :: "jsstring option"
  ca_props :: props
  ca_request :: "'n json"
  ca_scope :: "'n json option"
  ca_userId :: jsstring

text \<open>
  What the GitHub routes call and the sources do not contain. The numbers of the platform
  are a type \<open>'n\<close> with its three operations: reading a JSON number literal, printing
  a number as \<open>JSON.stringify\<close> does, and \<open>ToBoolean\<close>. The helpers
  \<open>getUpstreamAuthorizeUrl\<close> and \<open>fetchUpstreamAuthToken\<close> of \<open>./oauth-utils\<close>,
  Octokit's \<open>users.getAuthenticated\<close> and \<open>OAUTH_PROVIDER.completeAuthorization\<close>
  are parameters: any of the three calls may throw, and \<open>fetchUpstreamAuthToken\<close>
  resolves to \<open>[null, errResponse]\<close> (\<open>Inl\<close>) or \<open>[accessToken, null]\<close> (\<open>Inr\<close>).
\<close>

record 'n gh_world =
  read_number :: "jsstring \<Rightarrow> 'n"
  print_number :: "'n \<Rightarrow> jsstring"
  number_truthy :: "'n \<Rightarrow> bool"
  getUpstreamAuthorizeUrl :: "upstream_authorize_params \<Rightarrow> jsstring"
  fetchUpstreamAuthToken :: "upstream_token_params \<Rightarrow> exn + (response + jsstring)"
  getAuthenticated :: "jsstring \<Rightarrow> exn + github_user"
  completeAuthorization :: "'n complete_args \<Rightarrow> exn + jsstring"
  microsoft :: ms_world

datatype 'n gh_logarg = GStr jsstring | GExn exn | GJson "'n json" | GUser github_user

datatype 'n gh_effect =
    Log "'n gh_logarg list"
  | LogError "'n gh_logarg list"
  | UpstreamTokenCall upstream_token_params
  | OctokitCall jsstring
  | CompleteAuthorizationCall "'n complete_args"
  | Ms effect

text \<open>
  \<open>btoa(JSON.stringify(oauthReqInfo))\<close>, the state \<open>redirectToGithub\<close> sends, and
  \<open>redirectToGithub\<close>: the 302 response, or the exception of \<open>btoa\<close>.
\<close>

definition encode_state :: "('n \<Rightarrow> jsstring) \<Rightarrow> 'n json \<Rightarrow> exn + jsstring" where
  "encode_state pr oauthReqInfo = btoa (JSON_stringify pr oauthReqInfo)"

definition redirectToGithub ::
  "'n gh_world \<Rightarrow> request \<Rightarrow> 'n json \<Rightarrow> env \<Rightarrow> (jsstring \<times> jsstring) list \<Rightarrow> exn + response" where
  "redirectToGithub w req oauthReqInfo e hs =
     (case encode_state (print_number w) oauthReqInfo of
        Inl ex \<Rightarrow> Inl ex
      | Inr state \<Rightarrow>
          Inr \<lparr>status = 302,
               headers =
                 set_property hs
                   (js ''location'',
                    getUpstreamAuthorizeUrl w
                      \<lparr>ua_client_id = GITHUB_CLIENT_ID e,
                       ua_redirect_uri = url_href ''/callback'' req,
                       ua_scope = js ''read:user'',
                       ua_state = state,
                       ua_upstream_url = js ''https://github.com/login/oauth/authorize''\<rparr>),
               body = NoBody\<rparr>)"

text \<open>
  The two attempts of \<open>GET /callback\<close> at decoding the state, each with what it logs
  before it returns or throws.
\<close>

definition direct_decode :: "(jsstring \<Rightarrow> 'n) \<Rightarrow> jsstring \<Rightarrow> (exn + 'n json) \<times> 'n gh_effect list" where
  "direct_decode rd stateParam =
     (case atob stateParam of
        Inl ex \<Rightarrow> (Inl ex, [])
      | Inr base64Decoded \<Rightarrow>
          (JSON_parse rd base64Decoded,
           [Log [GStr (js ''Base64 decoded state:''), GStr base64Decoded]]))"

definition url_decode :: "(jsstring \<Rightarrow> 'n) \<Rightarrow> jsstring \<Rightarrow> (exn + 'n json) \<times> 'n gh_effect list" where
  "url_decode rd stateParam =
     (case decodeURIComponent stateParam of
        Inl ex \<Rightarrow> (Inl ex, [])
      | Inr urlDecoded \<Rightarrow>
          (case atob urlDecoded of
             Inl ex \<Rightarrow> (Inl ex, [Log [GStr (js ''URL decoded state:''), GStr urlDecoded]])
           | Inr base64Decoded \<Rightarrow>
               (JSON_parse rd base64Decoded,
                [Log [GStr (js ''URL decoded state:''), GStr urlDecoded],
                 Log [GStr (js ''Base64 decoded after URL decode:''), GStr base64Decoded]])))"

text \<open>
  The nested \<open>try\<close> of \<open>GET /callback\<close>: the decoded value, or the exception of the
  second attempt when both have failed.
\<close>

definition decode_state :: "(jsstring \<Rightarrow> 'n) \<Rightarrow> jsstring \<Rightarrow> (exn + 'n json) \<times> 'n gh_effect list" where
  "decode_state rd stateParam =
     (case direct_decode rd stateParam of
        (Inr v, fx) \<Rightarrow> (Inr v, fx)
      | (Inl directDecodeError, fx) \<Rightarrow>
          (case url_decode rd stateParam of
             (Inr v, fx') \<Rightarrow>
               (Inr v, fx @ [Log [GStr (js ''Direct base64 decode failed, trying URL decode first'')]] @ fx')
           | (Inl urlDecodeError, fx') \<Rightarrow>
               (Inl urlDecodeError,
                fx @ [Log [GStr (js ''Direct base64 decode failed, trying URL decode first'')]] @ fx'
                  @ [LogError [GStr (js ''Both decode methods failed:'')],
                     LogError [GStr (js ''Direct decode error:''), GExn directDecodeError],
                     LogError [GStr (js ''URL decode error:''), GExn urlDecodeError],
                     LogError [GStr (js ''Original state param:''), GStr stateParam]])))"

text \<open>
  \<open>GET /callback\<close> from the exchange on, entered with the decoded \<open>oauthReqInfo\<close>.
\<close>

definition token_params :: "env \<Rightarrow> request \<Rightarrow> upstream_token_params" where
  "token_params e req =
     \<lparr>ut_client_id = GITHUB_CLIENT_ID e,
      ut_client_secret = GITHUB_CLIENT_SECRET e,
      ut_code = query req (js ''code''),
      ut_redirect_uri = url_href ''/callback'' req,
      ut_upstream_url = js ''https://github.com/login/oauth/access_token''\<rparr>"

definition complete_args ::
  "'n json \<Rightarrow> 'n json option \<Rightarrow> jsstring \<Rightarrow> github_user \<Rightarrow> token_view option \<Rightarrow> 'n complete_args" where
  "complete_args oauthReqInfo scope accessToken' user microsoftTokens =
     \<lparr>ca_label = name user,
      ca_props =
        \<lparr>p_accessToken = accessToken', p_email = email user, p_login = login user,
         p_name = name user,
         microsoftAccessToken = map_option tv_accessToken microsoftTokens,
         microsoftRefreshToken = Option.bind microsoftTokens tv_refreshToken,
         microsoftTokenExpiry = map_option tv_expiresAt microsoftTokens\<rparr>,
      ca_request = oauthReqInfo,
      ca_scope = scope,
      ca_userId = login user\<rparr>"

definition callback_exchange ::
  "'n gh_world \<Rightarrow> env \<Rightarrow> request \<Rightarrow> 'n json \<Rightarrow> store \<Rightarrow> (exn + response) \<times> store \<times> 'n gh_effect list" where
  "callback_exchange w e req oauthReqInfo st =
     (case fetchUpstreamAuthToken w (token_params e req) of
        Inl ex \<Rightarrow> (Inl ex, st, [UpstreamTokenCall (token_params e req)])
      | Inr (Inl errResponse) \<Rightarrow>
          (Inr errResponse, st,
           [UpstreamTokenCall (token_params e req),
            LogError [GStr (js ''Error fetching upstream auth token'')]])
      | Inr (Inr accessToken') \<Rightarrow>
          (let fx1 = [UpstreamTokenCall (token_params e req),
                      Log [GStr (js ''Successfully got access token'')],
                      OctokitCall accessToken']
           in case getAuthenticated w accessToken' of
                Inl ex \<Rightarrow> (Inl ex, st, fx1)
              | Inr user \<Rightarrow>
                  (case getMicrosoftTokens (microsoft w) e (login user) st of
                     (microsoftTokens, st', fxm) \<Rightarrow>
                       (let fx2 = fx1 @ [Log [GStr (js ''Successfully fetched user info:''), GUser user]]
                                    @ map Ms fxm
                        in case get_property oauthReqInfo ''scope'' of
                             Inl ex \<Rightarrow> (Inl ex, st', fx2)
                           | Inr scope \<Rightarrow>
                               (let args = complete_args oauthReqInfo scope accessToken' user microsoftTokens
                                in case completeAuthorization w args of
                                     Inl ex \<Rightarrow> (Inl ex, st', fx2 @ [CompleteAuthorizationCall args])
                                   | Inr redirectTo \<Rightarrow>
                                       (Inr (c_redirect redirectTo), st',
                                        fx2 @ [CompleteAuthorizationCall args,
                                               Log [GStr (js ''Successfully completed authorization, redirecting to:''),
                                                    GStr redirectTo]]))))))"

text \<open>The outer \<open>try\<close> block of \<open>GET /callback\<close>: the response it returns or the
  exception that reaches the outer \<open>catch\<close>.\<close>

definition callback_try ::
  "'n gh_world \<Rightarrow> env \<Rightarrow> request \<Rightarrow> store \<Rightarrow> (exn + response) \<times> store \<times> 'n gh_effect list" where
  "callback_try w e req st =
     (let stateParam = query req (js ''state'') in
      if \<not> truthy_str stateParam then
        (Inr (c_text (js ''Missing state parameter'') 400), st,
         [LogError [GStr (js ''No state parameter found'')]])
      else
        (let fx0 = [Log [GStr (js ''State parameter received:''), GStr (template_str stateParam)]] in
         case decode_state (read_number w) (template_str stateParam) of
           (Inl urlDecodeError, fx1) \<Rightarrow>
             (Inr (c_text (js ''State decoding failed: '' @ message urlDecodeError) 400), st, fx0 @ fx1)
         | (Inr oauthReqInfo, fx1) \<Rightarrow>
             (case get_property oauthReqInfo ''clientId'' of
                Inl ex \<Rightarrow> (Inl ex, st, fx0 @ fx1)
              | Inr clientId \<Rightarrow>
                  if \<not> truthy (number_truthy w) clientId then
                    (Inr (c_text (js ''Invalid state - missing clientId'') 400), st,
                     fx0 @ fx1
                       @ [LogError [GStr (js ''No clientId in decoded oauthReqInfo:''), GJson oauthReqInfo]])
                  else
                    (case callback_exchange w e req oauthReqInfo st of
                       (r, st', fx2) \<Rightarrow>
                         (r, st',
                          fx0 @ fx1
                            @ [Log [GStr (js ''Successfully decoded oauthReqInfo:''), GJson oauthReqInfo]]
                            @ fx2)))))"

text \<open>\<open>app.get("/callback")\<close>.\<close>

definition callback ::
  "'n gh_world \<Rightarrow> env \<Rightarrow> request \<Rightarrow> store \<Rightarrow> response \<times> store \<times> 'n gh_effect list" where
  "callback w e req st =
     (case callback_try w e req st of
        (Inr r, st', fx) \<Rightarrow> (r, st', fx)
      | (Inl error, st', fx) \<Rightarrow>
          (c_text (js ''Callback error: '' @ message error) 500, st',
           fx @ [LogError [GStr (js ''Unexpected error in callback:''), GExn error]]))"

fun is_exchange :: "'n gh_effect \<Rightarrow> bool" where
  "is_exchange (UpstreamTokenCall _) = True"
| "is_exchange _ = False"

section \<open>Values that JavaScript can hold and JSON can carry\<close>

text \<open>
  The keys of an ordinary object are distinct, and those that are array indices come
  first, in ascending order. The association lists that are objects:
\<close>

fun index_keys_first :: "nat option list \<Rightarrow> bool" where
  "index_keys_first [] = True"
| "index_keys_first [x] = True"
| "index_keys_first (Some a # Some b # r) = (a < b \<and> index_keys_first (Some b # r))"
| "index_keys_first (Some a # None # r) = index_keys_first (None # r)"
| "index_keys_first (None # Some b # r) = False"
| "index_keys_first (None # None # r) = index_keys_first (None # r)"

definition js_object :: "(jsstring \<times> 'a) list \<Rightarrow> bool" where
  "js_object kvs =
     (distinct (map fst kvs) \<and> index_keys_first (map (\<lambda>kv. array_index (fst kv)) kvs))"

text \<open>
  \<open>json_ok pr rd v\<close>: every object inside \<open>v\<close> is one, and every number inside
  \<open>v\<close> is printed by the platform (\<open>pr\<close>) as a JSON number literal that the platform
  reads (\<open>rd\<close>) as the same number; this is so for the finite numbers of JavaScript and
  fails for \<open>NaN\<close> and the infinities, which \<open>JSON.stringify\<close> prints as \<open>null\<close>.
\<close>

fun json_ok :: "('n \<Rightarrow> jsstring) \<Rightarrow> (jsstring \<Rightarrow> 'n) \<Rightarrow> 'n json \<Rightarrow> bool"
  and elements_ok :: "('n \<Rightarrow> jsstring) \<Rightarrow> (jsstring \<Rightarrow> 'n) \<Rightarrow> 'n json list \<Rightarrow> bool"
  and members_ok :: "('n \<Rightarrow> jsstring) \<Rightarrow> (jsstring \<Rightarrow> 'n) \<Rightarrow> (jsstring \<times> 'n json) list \<Rightarrow> bool" where
  "json_ok pr rd JNull = True"
| "json_ok pr rd (JBool b) = True"
| "json_ok pr rd (JNum n) = (lex_number (pr n) = Some (pr n, []) \<and> rd (pr n) = n)"
| "json_ok pr rd (JStr s) = True"
| "json_ok pr rd (JArr vs) = elements_ok pr rd vs"
| "json_ok pr rd (JObj kvs) = (js_object kvs \<and> members_ok pr rd kvs)"
| "elements_ok pr rd [] = True"
| "elements_ok pr rd (v # vs) = (json_ok pr rd v \<and> elements_ok pr rd vs)"
| "members_ok pr rd [] = True"
| "members_ok pr rd ((k, v) # kvs) = (json_ok pr rd v \<and> members_ok pr rd kvs)"

text \<open>A string \<open>btoa\<close> accepts: every code unit is at most U+00FF.\<close>

definition latin1 :: "jsstring \<Rightarrow> bool" where
  "latin1 s = list_all (\<lambda>c. c \<le> 0xFF) s"

section \<open>Auxiliary notions of the proofs\<close>

text \<open>The sextets of a list of octets, and the number of padding characters.\<close>

fun to_sextets :: "nat list \<Rightarrow> nat list" where
  "to_sextets (a # b # c # bs) =
     a div 4 # ((a mod 4) * 16 + b div 16) # ((b mod 16) * 4 + c div 64) # c mod 64 # to_sextets bs"
| "to_sextets [a, b] = [a div 4, (a mod 4) * 16 + b div 16, (b mod 16) * 4]"
| "to_sextets [a] = [a div 4, (a mod 4) * 16]"
| "to_sextets [] = []"

fun pad_length :: "nat list \<Rightarrow> nat" where
  "pad_length (a # b # c # bs) = pad_length bs"
| "pad_length [a, b] = 1"
| "pad_length [a] = 2"
| "pad_length [] = 0"

text \<open>What follows a value in the text \<open>JSON.stringify\<close> writes: nothing, a comma or
  a closing bracket; and the characters a value starts with.\<close>

definition delimited :: "jsstring \<Rightarrow> bool" where
  "delimited r = (case r of [] \<Rightarrow> True | c # _ \<Rightarrow> c = 0x2C \<or> c = 0x5D \<or> c = 0x7D)"

definition value_start :: "jschar \<Rightarrow> bool" where
  "value_start c = (c = 0x7B \<or> c = 0x5B \<or> c = 0x22 \<or> c = 0x6E \<or> c = 0x74 \<or> c = 0x66
                     \<or> c = 0x2D \<or> is_digit c)"

section \<open>Concrete inputs\<close>

definition ex_env :: env where
  "ex_env = \<lparr>GITHUB_CLIENT_ID = js ''gh-id'', GITHUB_CLIENT_SECRET = js ''gh-secret'',
             COOKIE_ENCRYPTION_KEY = js ''cookie-key'', MS_CLIENT_ID = js ''ms-id'',
             MS_CLIENT_SECRET = js ''ms-secret''\<rparr>"

definition ex_stored_user :: stored_user where
  "ex_stored_user = \<lparr>su_id = js ''u1'', su_displayName = js ''Alice'', su_email = js ''a@example.com''\<rparr>"

definition ex_user :: user_info where
  "ex_user = \<lparr>user_id = js ''u1'', displayName = js ''Alice'', mail = js ''a@example.com'',
              userPrincipalName = js ''alice@example.onmicrosoft.com''\<rparr>"

text \<open>A record that expires at \<open>t\<close> ms; the clock of the worlds below starts at 1000000 ms.\<close>

definition ex_tokens :: "int \<Rightarrow> token_data" where
  "ex_tokens t = \<lparr>accessToken = js ''tok1'', refreshToken = Some (js ''ref1''),
                  expiresAt = Number (Fin (of_int t)), userInfo = ex_stored_user\<rparr>"

definition ex_store :: "int \<Rightarrow> store" where
  "ex_store t = \<lparr>ms_oauth_state = [js ''nonce1'' \<mapsto> js ''alice''],
                 ms_tokens = [js ''alice'' \<mapsto> ex_tokens t]\<rparr>"

definition ex_token_response :: "int \<Rightarrow> token_response" where
  "ex_token_response n = \<lparr>access_token = js ''tok2'', refresh_token = None,
                          expires_in = Number (Fin (of_int n)),
                          token_type = js ''Bearer'', granted_scope = js ''User.Read''\<rparr>"

text \<open>
  A world whose token endpoint answers 200 with \<open>expires_in = n\<close> and no refresh token,
  and one whose token endpoint answers 400.
\<close>

definition ex_world :: "int \<Rightarrow> ms_world" where
  "ex_world n =
     \<lparr>fetch_token = (\<lambda>rq. Inr \<lparr>fs_status = 200, fs_text = [], fs_json = Inr (ex_token_response n)\<rparr>),
      fetch_user = (\<lambda>rq. Inr \<lparr>fs_status = 200, fs_text = [], fs_json = Inr ex_user\<rparr>),
      date_now = (\<lambda>k. 1000000 + int k)\<rparr>"

definition ex_world_down :: ms_world where
  "ex_world_down =
     \<lparr>fetch_token = (\<lambda>rq. Inr \<lparr>fs_status = 400, fs_text = js ''invalid_grant'',
                              fs_json = Inl (Exn SyntaxError [])\<rparr>),
      fetch_user = (\<lambda>rq. Inr \<lparr>fs_status = 200, fs_text = [], fs_json = Inr ex_user\<rparr>),
      date_now = (\<lambda>k. 1000000 + int k)\<rparr>"

text \<open>A world whose token endpoint answers 200 with a body that has no \<open>expires_in\<close>.\<close>

definition ex_bare_response :: token_response where
  "ex_bare_response = \<lparr>access_token = js ''tok2'', refresh_token = None, expires_in = Undefined,
                        token_type = js ''Bearer'', granted_scope = js ''User.Read''\<rparr>"

definition ex_world_bare :: ms_world where
  "ex_world_bare =
     \<lparr>fetch_token = (\<lambda>rq. Inr \<lparr>fs_status = 200, fs_text = [], fs_json = Inr ex_bare_response\<rparr>),
      fetch_user = (\<lambda>rq. Inr \<lparr>fs_status = 200, fs_text = [], fs_json = Inr ex_user\<rparr>),
      date_now = (\<lambda>k. 1000000 + int k)\<rparr>"

text \<open>A world whose token endpoint answers 503 with the same body.\<close>

definition ex_world_unavailable :: ms_world where
  "ex_world_unavailable =
     \<lparr>fetch_token = (\<lambda>rq. Inr \<lparr>fs_status = 503, fs_text = js ''invalid_grant'',
                              fs_json = Inl (Exn SyntaxError [])\<rparr>),
      fetch_user = (\<lambda>rq. Inr \<lparr>fs_status = 200, fs_text = [], fs_json = Inr ex_user\<rparr>),
      date_now = (\<lambda>k. 1000000 + int k)\<rparr>"

text \<open>A callback of the Microsoft flow with a code and the nonce \<open>nonce1\<close>.\<close>

definition ex_req :: request where
  "ex_req = \<lparr>origin = js ''https://mcp.example.com'',
             query = [js ''code'' \<mapsto> js ''validcode'', js ''state'' \<mapsto> js ''nonce1'']\<rparr>"

text \<open>
  The examples of the GitHub routes hold no number; their platform has one number, zero.
  An authorization request as \<open>parseAuthRequest\<close> returns it, and the state
  \<open>redirectToGithub\<close> sends for the request \<open>{"clientId":"abc123"}\<close>.
\<close>

definition ex_print :: "unit \<Rightarrow> jsstring" where
  "ex_print n = js ''0''"

definition ex_read :: "jsstring \<Rightarrow> unit" where
  "ex_read l = ()"

definition ex_auth_request :: "unit json" where
  "ex_auth_request =
     JObj [(js ''responseType'', JStr (js ''code'')),
           (js ''clientId'', JStr (js ''abc123'')),
           (js ''redirectUri'', JStr (js ''https://client.example/cb'')),
           (js ''scope'', JArr [JStr (js ''read''), JStr (js ''write'')]),
           (js ''state'', JStr (js ''xyz''))]"

definition ex_small_request :: "unit json" where
  "ex_small_request = JObj [(js ''clientId'', JStr (js ''abc123''))]"

definition ex_state :: jsstring where
  "ex_state = js ''eyJjbGllbnRJZCI6ImFiYzEyMyJ9''"

text \<open>A request whose client id is the euro sign, U+20AC.\<close>

definition ex_euro_request :: "unit json" where
  "ex_euro_request = JObj [(js ''clientId'', JStr [0x20AC])]"

text \<open>A request whose client id is a lone surrogate, U+D800.\<close>

definition ex_surrogate_request :: "unit json" where
  "ex_surrogate_request = JObj [(js ''clientId'', JStr [0xD800])]"

text \<open>
  Callbacks of the GitHub flow: one whose state is \<open>btoa("null")\<close>, and one that carries
  a code, an error parameter and the state of \<open>{"clientId":"abc123"}\<close>.
\<close>

definition ex_null_req :: request where
  "ex_null_req = \<lparr>origin = js ''https://mcp.example.com'',
                  query = [js ''code'' \<mapsto> js ''validcode'', js ''state'' \<mapsto> js ''bnVsbA=='']\<rparr>"

definition ex_error_req :: request where
  "ex_error_req = \<lparr>origin = js ''https://mcp.example.com'',
                   query = [js ''code'' \<mapsto> js ''validcode'', js ''error'' \<mapsto> js ''access_denied'',
                            js ''state'' \<mapsto> ex_state]\<rparr>"

text \<open>A world in which every call of the GitHub flow fails, the exchange helper with a
  response of its own.\<close>

definition ex_gh_world :: "unit gh_world" where
  "ex_gh_world =
     \<lparr>read_number = ex_read, print_number = ex_print, number_truthy = (\<lambda>n. False),
      getUpstreamAuthorizeUrl = (\<lambda>p. ua_upstream_url p),
      fetchUpstreamAuthToken =
        (\<lambda>p. Inr (Inl \<lparr>status = 500, headers = [],
                          body = TextBody (js ''Failed to fetch access token'')\<rparr>)),
      getAuthenticated = (\<lambda>t. Inl (Exn Error (js ''Bad credentials''))),
      completeAuthorization = (\<lambda>a. Inl (Exn Error (js ''Invalid client''))),
      microsoft = ex_world_down\<rparr>"

text \<open>A callback with no parameter at all.\<close>

definition ex_bare_req :: request where
  "ex_bare_req = \<lparr>origin = js ''https://mcp.example.com'', query = Map.empty\<rparr>"

lemma unat_of_nat16: "m < 65536 \<Longrightarrow> unat (of_nat m :: jschar) = m"
  by (simp add: unat_of_nat)

lemma b64_digit_cases:
  "n < 64 \<Longrightarrow> unat (b64_digit n) =
     (if n < 26 then 65 + n else if n < 52 then 71 + n else if n < 62 then n - 4
      else if n = 62 then 43 else 47)"
  unfolding b64_digit_def by (simp add: unat_of_nat16 del: of_nat_add of_nat_diff)

lemma b64_value_digit: "n < 64 \<Longrightarrow> b64_value (b64_digit n) = Some n"
  unfolding b64_value_def Let_def by (simp add: b64_digit_cases) arith

lemma b64_value_pad: "b64_value 0x3D = None"
  by (simp add: b64_value_def)

lemma b64_value_ws: "is_ascii_whitespace c \<Longrightarrow> b64_value c = None"
  by (auto simp: b64_value_def is_ascii_whitespace_def)

lemma b64_digit_not_pad: "n < 64 \<Longrightarrow> b64_digit n \<noteq> 0x3D"
  using b64_value_digit b64_value_pad by fastforce

lemma b64_digit_not_ws: "n < 64 \<Longrightarrow> \<not> is_ascii_whitespace (b64_digit n)"
  using b64_value_digit b64_value_ws by fastforce

lemma to_sextets_bound: "list_all (\<lambda>b. b < 256) bs \<Longrightarrow> list_all (\<lambda>v. v < 64) (to_sextets bs)"
  by (induction bs rule: to_sextets.induct) auto

lemma b64_encode_sextets:
  "b64_encode bs = map b64_digit (to_sextets bs) @ replicate (pad_length bs) 0x3D"
  by (induction bs rule: b64_encode.induct) (simp_all add: numeral_2_eq_2)

lemma pad_length_le: "pad_length bs \<le> 2"
  by (induction bs rule: pad_length.induct) simp_all

lemma sextets_digits: "list_all (\<lambda>v. v < 64) vs \<Longrightarrow> sextets (map b64_digit vs) = Some vs"
  by (induction vs) (simp_all add: b64_value_digit)

lemma b64_decode_sextets: "list_all (\<lambda>b. b < 256) bs \<Longrightarrow> b64_decode (to_sextets bs) = bs"
  by (induction bs rule: to_sextets.induct) auto

lemma strip_padding_body:
  assumes "list_all (\<lambda>c. c \<noteq> 0x3D) bd" and "k \<le> 2" and "(length bd + k) mod 4 = 0"
  shows "strip_padding (bd @ replicate k 0x3D) = bd"
proof -
  consider "k = 0" | "k = 1" | "k = 2" using assms(2) by linarith
  then show ?thesis
  proof cases
    case 1
    show ?thesis
    proof (cases bd rule: rev_cases)
      case Nil
      then show ?thesis using 1 by (simp add: strip_padding_def)
    next
      case (snoc ys y)
      then show ?thesis using 1 assms
        by (cases ys rule: rev_cases) (auto simp: strip_padding_def)
    qed
  next
    case 2
    show ?thesis
    proof (cases bd rule: rev_cases)
      case Nil
      then show ?thesis using 2 assms by simp
    next
      case (snoc ys y)
      then show ?thesis using 2 assms by (auto simp: strip_padding_def)
    qed
  next
    case 3
    then show ?thesis using assms by (auto simp: strip_padding_def numeral_2_eq_2)
  qed
qed

lemma digits_not_pad:
  "list_all (\<lambda>v. v < 64) vs \<Longrightarrow> list_all (\<lambda>c. c \<noteq> 0x3D) (map b64_digit vs)"
  by (induction vs) (simp_all add: b64_digit_not_pad)

lemma digits_not_ws:
  "list_all (\<lambda>v. v < 64) vs \<Longrightarrow> filter (\<lambda>c. \<not> is_ascii_whitespace c) (map b64_digit vs) = map b64_digit vs"
  by (induction vs) (simp_all add: b64_digit_not_ws)

lemma pad_not_ws: "filter (\<lambda>c. \<not> is_ascii_whitespace c) (replicate k 0x3D) = replicate k 0x3D"
  by (induction k) (simp_all add: is_ascii_whitespace_def)

lemma length_sextets_mod: "length (to_sextets bs) mod 4 \<noteq> 1"
  by (induction bs rule: to_sextets.induct) simp_all

lemma length_encode_mod:
  "(length (to_sextets bs) + pad_length bs) mod 4 = 0"
  by (induction bs rule: to_sextets.induct) simp_all

theorem atob_b64_encode:
  assumes "list_all (\<lambda>b. b < 256) bs"
  shows "atob (b64_encode bs) = Inr (map of_nat bs)"
proof -
  define vs where "vs = to_sextets bs"
  define k where "k = pad_length bs"
  have vs: "list_all (\<lambda>v. v < 64) vs" unfolding vs_def using assms by (rule to_sextets_bound)
  have enc: "b64_encode bs = map b64_digit vs @ replicate k 0x3D"
    unfolding vs_def k_def by (rule b64_encode_sextets)
  have f: "filter (\<lambda>c. \<not> is_ascii_whitespace c) (b64_encode bs) = map b64_digit vs @ replicate k 0x3D"
    unfolding enc by (simp add: digits_not_ws [OF vs] pad_not_ws)
  have "k \<le> 2" unfolding k_def by (rule pad_length_le)
  moreover have "(length (map b64_digit vs) + k) mod 4 = 0"
    unfolding vs_def k_def using length_encode_mod [of bs] by simp
  ultimately have sp: "strip_padding (map b64_digit vs @ replicate k 0x3D) = map b64_digit vs"
    using digits_not_pad [OF vs] by (intro strip_padding_body)
  have len: "length (map b64_digit vs) mod 4 \<noteq> 1"
    unfolding vs_def using length_sextets_mod [of bs] by simp
  have dec: "b64_decode vs = bs"
    unfolding vs_def using assms by (rule b64_decode_sextets)
  show ?thesis
    unfolding atob_def f sp Let_def using len by (simp add: sextets_digits [OF vs] dec)
qed

lemma map_of_nat_unat: "map of_nat (map unat (s :: jsstring)) = s"
  by (induction s) simp_all

lemma latin1_octets: "list_all (\<lambda>c. c \<le> 0xFF) (s :: jsstring) \<Longrightarrow> list_all (\<lambda>b. b < 256) (map unat s)"
proof (induction s)
  case Nil
  then show ?case by simp
next
  case (Cons c s)
  from Cons.prems have "c \<le> 0xFF" by simp
  then have "unat c \<le> unat (0xFF :: jschar)" by (simp only: word_le_nat_alt)
  then have "unat c < 256" by simp
  with Cons show ?case by simp
qed

theorem atob_btoa:
  assumes "btoa s = Inr t"
  shows "atob t = Inr s"
proof -
  have l1: "list_all (\<lambda>c. c \<le> 0xFF) s"
    using assms unfolding btoa_def by (cases "list_all (\<lambda>c. c \<le> 0xFF) s") simp_all
  then have t: "t = b64_encode (map unat s)"
    using assms unfolding btoa_def by simp
  show ?thesis
    unfolding t by (simp only: atob_b64_encode [OF latin1_octets [OF l1]] map_of_nat_unat)
qed

section \<open>String literals\<close>

lemma hex_value_digit: "d < 16 \<Longrightarrow> hex_value (hex_digit d) = Some d"
  unfolding hex_value_def hex_digit_def Let_def
  by (simp add: unat_of_nat16 del: of_nat_add of_nat_diff)

lemma of_nat_unat16: "(of_nat (unat (c :: jschar)) :: jschar) = c"
  by simp

lemma unat16_bound: "unat (c :: jschar) < 65536"
  using unsigned_less [of c, where ?'a = nat] by simp

lemma hex_split: "(n::nat) div 4096 * 4096 + n div 256 mod 16 * 256 + n div 16 mod 16 * 16 + n mod 16 = n"
proof -
  have 1: "n mod 4096 = 256 * (n div 256 mod 16) + n mod 256"
    using mod_mult2_eq [of n 256 16] by simp
  have 2: "n mod 256 = 16 * (n div 16 mod 16) + n mod 16"
    using mod_mult2_eq [of n 16 16] by simp
  have 3: "n = n div 4096 * 4096 + n mod 4096" by simp
  show ?thesis using 1 2 3 by linarith
qed

lemma hex4_escape:
  "hex4 (hex_digit (unat c div 4096)) (hex_digit (unat c div 256 mod 16))
        (hex_digit (unat c div 16 mod 16)) (hex_digit (unat c mod 16)) = Some c"
proof -
  have b: "unat c div 4096 < 16" using unat16_bound [of c] by simp
  have h1: "hex_value (hex_digit (unat c div 4096)) = Some (unat c div 4096)"
    using b by (rule hex_value_digit)
  have h2: "hex_value (hex_digit (unat c div 256 mod 16)) = Some (unat c div 256 mod 16)"
    by (rule hex_value_digit) simp
  have h3: "hex_value (hex_digit (unat c div 16 mod 16)) = Some (unat c div 16 mod 16)"
    by (rule hex_value_digit) simp
  have h4: "hex_value (hex_digit (unat c mod 16)) = Some (unat c mod 16)"
    by (rule hex_value_digit) simp
  show ?thesis
    unfolding hex4_def h1 h2 h3 h4 by (simp only: prod.case option.case hex_split of_nat_unat16)
qed

lemma string_chars_unicode_escape:
  "string_chars (unicode_escape c @ r) = cons_result c (string_chars r)"
  unfolding unicode_escape_def Let_def by (simp add: hex4_escape)

lemma string_chars_quote_unit:
  "string_chars (quote_unit c @ r) = cons_result c (string_chars r)"
  unfolding quote_unit_def
  by (simp add: string_chars_unicode_escape simple_escape_def)

lemma surrogate_not_special:
  assumes "is_high_surrogate c \<or> is_low_surrogate c"
  shows "c \<noteq> 0x22" and "c \<noteq> 0x5C" and "\<not> c < 0x20"
  using assms unfolding is_high_surrogate_def is_low_surrogate_def
  by (auto simp: word_le_nat_alt word_less_nat_alt)

lemma string_chars_pair:
  assumes "is_high_surrogate c" and "is_low_surrogate d"
  shows "string_chars (c # d # r) = cons_result c (cons_result d (string_chars r))"
  using surrogate_not_special [of c] surrogate_not_special [of d] assms by simp

lemma string_chars_quote_units:
  "string_chars (quote_units s @ 0x22 # r) = Some (s, r)"
proof (induction s rule: quote_units.induct)
  case 1
  show ?case by simp
next
  case (2 c)
  show ?case
    by (simp only: quote_units.simps string_chars_quote_unit) (simp add: cons_result_def)
next
  case (3 c d cs)
  show ?case
  proof (cases "is_high_surrogate c \<and> is_low_surrogate d")
    case True
    then have "quote_units (c # d # cs) = c # d # quote_units cs" by simp
    then show ?thesis
      using True 3(1) by (simp only: append_Cons string_chars_pair) (simp add: cons_result_def)
  next
    case False
    then have "quote_units (c # d # cs) = quote_unit c @ quote_units (d # cs)" by auto
    then show ?thesis
      using False 3(2) by (simp only: append_assoc string_chars_quote_unit) (simp add: cons_result_def)
  qed
qed

lemma string_chars_QuoteJSONString:
  "QuoteJSONString s @ r = 0x22 # quote_units s @ 0x22 # r"
  by (simp add: QuoteJSONString_def)

lemma delimited_digits: "delimited r \<Longrightarrow> digits r = ([], r)"
  by (cases r) (auto simp: delimited_def digits_def is_digit_def)

lemma digits_append:
  "delimited r \<Longrightarrow> digits (xs @ r) = (fst (digits xs), snd (digits xs) @ r)"
proof (induction xs)
  case Nil
  then show ?case by (simp add: delimited_digits) (simp add: digits_def)
next
  case (Cons x xs)
  then show ?case by (simp add: digits_def)
qed

lemma lex_int_append:
  "lex_int xs = Some (i, t) \<Longrightarrow> delimited r \<Longrightarrow> lex_int (xs @ r) = Some (i, t @ r)"
  by (cases xs) (auto simp: lex_int_def digits_append split: if_splits)

lemma lex_frac_append:
  "lex_frac xs = Some (f, t) \<Longrightarrow> delimited r \<Longrightarrow> lex_frac (xs @ r) = Some (f, t @ r)"
  by (cases xs; cases r) (auto simp: lex_frac_def digits_append delimited_def split: if_splits)

lemma lex_sign_append:
  "delimited r \<Longrightarrow> lex_sign (xs @ r) = (fst (lex_sign xs), snd (lex_sign xs) @ r)"
  by (cases xs; cases r) (auto simp: lex_sign_def delimited_def)

lemma lex_exp_append:
  "lex_exp xs = Some (x, t) \<Longrightarrow> delimited r \<Longrightarrow> lex_exp (xs @ r) = Some (x, t @ r)"
  by (cases xs; cases r)
     (auto simp: lex_exp_def lex_sign_append digits_append delimited_def split_beta split: if_splits)

lemma lex_number_append:
  assumes "lex_number xs = Some (l, t)" and "delimited r"
  shows "lex_number (xs @ r) = Some (l, t @ r)"
proof (cases xs)
  case Nil
  then show ?thesis using assms by (simp add: lex_number_def lex_int_def)
next
  case (Cons d ds)
  show ?thesis
  proof (cases "d = 0x2D")
    case True
    then show ?thesis
      using assms Cons
      by (auto simp: lex_number_def lex_int_append lex_frac_append lex_exp_append
               split: option.splits prod.splits)
  next
    case False
    then show ?thesis
      using assms Cons lex_int_append [of "d # ds" _ _ r]
      by (auto simp: lex_number_def lex_frac_append lex_exp_append
               split: option.splits prod.splits)
  qed
qed

lemma index_keys_first_tl: "index_keys_first (x # xs) \<Longrightarrow> index_keys_first xs"
  by (induction "x # xs" arbitrary: x xs rule: index_keys_first.induct) auto

lemma index_keys_first_last:
  "index_keys_first (x # xs @ [Some i]) \<Longrightarrow> \<exists>j. x = Some j \<and> j < i"
proof (induction xs arbitrary: x)
  case Nil
  then show ?case by (cases x) auto
next
  case (Cons y ys)
  from Cons.prems have "index_keys_first (y # ys @ [Some i])"
    using index_keys_first_tl by fastforce
  then obtain k where k: "y = Some k" "k < i" using Cons.IH by blast
  with Cons.prems show ?case by (cases x) auto
qed

lemma insert_index_last:
  "index_keys_first (map (\<lambda>kv. array_index (fst kv)) (acc @ [(k, v)])) \<Longrightarrow> array_index k = Some i
     \<Longrightarrow> insert_index i k v acc = acc @ [(k, v)]"
proof (induction acc)
  case Nil
  then show ?case by simp
next
  case (Cons a acc)
  obtain k' v' where a: "a = (k', v')" by (cases a)
  from Cons.prems obtain j where j: "array_index k' = Some j" "j < i"
    using index_keys_first_last [of "array_index k'" "map (\<lambda>kv. array_index (fst kv)) acc" i]
    by (auto simp: a)
  from Cons.prems have "index_keys_first (map (\<lambda>kv. array_index (fst kv)) (acc @ [(k, v)]))"
    using index_keys_first_tl by fastforce
  with Cons j a show ?case by simp
qed

lemma has_key_iff: "has_key k kvs \<longleftrightarrow> k \<in> set (map fst kvs)"
  by (induction kvs) auto

lemma set_property_last:
  assumes "js_object (acc @ [kv])"
  shows "set_property acc kv = acc @ [kv]"
proof -
  obtain k v where kv: "kv = (k, v)" by (cases kv)
  from assms have nk: "\<not> has_key k acc"
    by (simp add: js_object_def has_key_iff kv)
  show ?thesis
  proof (cases "array_index k")
    case None
    then show ?thesis using nk by (simp add: set_property_def kv)
  next
    case (Some i)
    from assms have "index_keys_first (map (\<lambda>kv. array_index (fst kv)) (acc @ [(k, v)]))"
      by (simp add: js_object_def kv)
    from insert_index_last [OF this Some] show ?thesis
      using nk Some by (simp add: set_property_def kv)
  qed
qed

lemma index_keys_first_butlast:
  "index_keys_first (xs @ [y]) \<Longrightarrow> index_keys_first xs"
proof (induction xs rule: index_keys_first.induct)
  case (3 a b r)
  then show ?case by (cases r) auto
next
  case (4 a r)
  then show ?case by (cases r) auto
next
  case (6 r)
  then show ?case by (cases r) auto
qed auto

lemma index_keys_first_prefix:
  "index_keys_first (xs @ ys) \<Longrightarrow> index_keys_first xs"
proof (induction ys rule: rev_induct)
  case Nil
  then show ?case by simp
next
  case (snoc y ys)
  then show ?case using index_keys_first_butlast [of "xs @ ys" y] by simp
qed

lemma js_object_prefix: "js_object (xs @ ys) \<Longrightarrow> js_object xs"
  using index_keys_first_prefix [of "map (\<lambda>kv. array_index (fst kv)) xs" "map (\<lambda>kv. array_index (fst kv)) ys"]
  by (simp add: js_object_def)

lemma foldl_set_property:
  "js_object (acc @ kvs) \<Longrightarrow> foldl set_property acc kvs = acc @ kvs"
proof (induction kvs arbitrary: acc)
  case Nil
  then show ?case by simp
next
  case (Cons kv kvs)
  from Cons.prems have "js_object ((acc @ [kv]) @ kvs)" by simp
  then have "js_object (acc @ [kv])" by (rule js_object_prefix)
  then have "set_property acc kv = acc @ [kv]" by (rule set_property_last)
  with Cons.IH [of "acc @ [kv]"] Cons.prems show ?case by simp
qed

lemma value_start_not:
  assumes "value_start c"
  shows "\<not> is_json_ws c" and "c \<noteq> 0x5D" and "c \<noteq> 0x7D" and "c \<noteq> 0x2C"
  using assms unfolding value_start_def is_json_ws_def is_digit_def
  by (auto simp: word_le_nat_alt)

lemma skip_ws_start: "value_start c \<Longrightarrow> skip_ws (c # cs) = c # cs"
  by (simp add: skip_ws_def value_start_not)

lemma skip_ws_delim [simp]:
  "skip_ws (0x5D # cs) = 0x5D # cs" "skip_ws (0x7D # cs) = 0x7D # cs"
  "skip_ws (0x2C # cs) = 0x2C # cs" "skip_ws (0x3A # cs) = 0x3A # cs"
  "skip_ws (0x22 # cs) = 0x22 # cs"
  by (simp_all add: skip_ws_def is_json_ws_def)

lemma lex_number_head:
  assumes "lex_number l = Some (l', t)"
  shows "\<exists>c cs. l = c # cs \<and> (c = 0x2D \<or> is_digit c)"
proof (cases l)
  case Nil
  then show ?thesis using assms by (simp add: lex_number_def lex_int_def)
next
  case (Cons c cs)
  then show ?thesis using assms
    by (auto simp: lex_number_def lex_int_def is_digit_def split: option.splits if_splits)
qed

lemma parse_value_null: "parse_value rd (Suc m) (js ''null'' @ r) = Parsed JNull r"
  by (simp add: js_def)

lemma parse_value_true: "parse_value rd (Suc m) (js ''true'' @ r) = Parsed (JBool True) r"
  by (simp add: js_def)

lemma parse_value_false: "parse_value rd (Suc m) (js ''false'' @ r) = Parsed (JBool False) r"
  by (simp add: js_def)

lemma parse_value_string: "parse_value rd (Suc m) (QuoteJSONString s @ r) = Parsed (JStr s) r"
  by (simp add: QuoteJSONString_def string_chars_quote_units)

lemma parse_value_number:
  assumes "lex_number l = Some (l, [])" and "delimited r"
  shows "parse_value rd (Suc m) (l @ r) = Parsed (JNum (rd l)) r"
proof -
  from lex_number_head [OF assms(1)] obtain c cs where l: "l = c # cs" and c: "c = 0x2D \<or> is_digit c"
    by blast
  have n: "c \<noteq> 0x7B" "c \<noteq> 0x5B" "c \<noteq> 0x22" "c \<noteq> 0x6E" "c \<noteq> 0x74" "c \<noteq> 0x66"
    using c by (auto simp: is_digit_def word_le_nat_alt)
  have t: "take 4 (c # cs @ r) \<noteq> js ''null''" "take 4 (c # cs @ r) \<noteq> js ''true''"
    "take 5 (c # cs @ r) \<noteq> js ''false''"
    using n by (auto simp: js_def take_Cons')
  have "lex_number (c # cs @ r) = Some (l, r)"
    using lex_number_append [OF assms] by (simp add: l)
  then show ?thesis
    unfolding l using n t by (simp del: take_Suc_Cons)
qed

lemma stringify_start:
  assumes "json_ok pr rd v"
  shows "\<exists>c cs. JSON_stringify pr v = c # cs \<and> value_start c"
proof (cases v)
  case (JNum n)
  with assms have "lex_number (pr n) = Some (pr n, [])" by simp
  from lex_number_head [OF this] show ?thesis
    using JNum by (auto simp: value_start_def)
qed (auto simp: js_def value_start_def QuoteJSONString_def)

lemma elements_start:
  assumes "elements_ok pr rd vs" and "vs \<noteq> []"
  shows "\<exists>c cs. commas (stringify_elements pr vs) = c # cs \<and> value_start c"
proof -
  from assms obtain v vs' where vs: "vs = v # vs'" and v: "json_ok pr rd v"
    by (cases vs) auto
  from stringify_start [OF v] obtain c cs where c: "JSON_stringify pr v = c # cs" "value_start c"
    by blast
  then show ?thesis unfolding vs by (cases vs') auto
qed

lemma members_start:
  assumes "kvs \<noteq> []"
  shows "\<exists>cs. commas (stringify_members pr kvs) = 0x22 # cs"
proof -
  from assms obtain k v kvs' where "kvs = (k, v) # kvs'" by (cases kvs) auto
  then show ?thesis by (cases kvs') (auto simp: QuoteJSONString_def)
qed

lemma parse_stringify:
  "json_ok pr rd v \<Longrightarrow> delimited r \<Longrightarrow> 2 * length (JSON_stringify pr v) < n
     \<Longrightarrow> parse_value rd n (JSON_stringify pr v @ r) = Parsed v r"
  "elements_ok pr rd vs \<Longrightarrow> vs \<noteq> [] \<Longrightarrow> 2 * length (commas (stringify_elements pr vs)) + 1 < n
     \<Longrightarrow> parse_elements rd n (commas (stringify_elements pr vs) @ 0x5D # r) = Parsed vs r"
  "members_ok pr rd kvs \<Longrightarrow> kvs \<noteq> [] \<Longrightarrow> 2 * length (commas (stringify_members pr kvs)) + 1 < n
     \<Longrightarrow> parse_members rd n (commas (stringify_members pr kvs) @ 0x7D # r) = Parsed kvs r"
proof (induction pr v and pr vs and pr kvs arbitrary: n r and n r and n r
       rule: JSON_stringify_stringify_elements_stringify_members.induct)
  case (1 pr)
  then obtain m where "n = Suc m" by (cases n) auto
  then show ?case by (simp only: JSON_stringify.simps parse_value_null)
next
  case (2 pr b)
  then obtain m where "n = Suc m" by (cases n) auto
  then show ?case by (cases b) (simp_all only: JSON_stringify.simps parse_value_true parse_value_false if_True if_False)
next
  case (3 pr x)
  then obtain m where "n = Suc m" by (cases n) auto
  with 3 show ?case by (simp add: parse_value_number del: parse_value.simps)
next
  case (4 pr s)
  then obtain m where "n = Suc m" by (cases n) auto
  then show ?case by (simp only: JSON_stringify.simps parse_value_string)
next
  case (5 pr vs)
  then obtain m where n: "n = Suc m" by (cases n) auto
  show ?case
  proof (cases "vs = []")
    case True
    then show ?thesis unfolding n by simp
  next
    case False
    from 5(2) have ok: "elements_ok pr rd vs" by simp
    from elements_start [OF ok False] obtain c cs
      where c: "commas (stringify_elements pr vs) = c # cs" "value_start c" by blast
    have "2 * length (commas (stringify_elements pr vs)) + 1 < m"
      using 5(4) n by simp
    from 5(1) [OF ok False this, of r]
    have "parse_elements rd m (c # cs @ 0x5D # r) = Parsed vs r" by (simp add: c)
    then show ?thesis
      unfolding n using c value_start_not [OF c(2)] by (simp add: skip_ws_start)
  qed
next
  case (6 pr kvs)
  then obtain m where n: "n = Suc m" by (cases n) auto
  show ?case
  proof (cases "kvs = []")
    case True
    then show ?thesis unfolding n by simp
  next
    case False
    from 6(2) have ok: "members_ok pr rd kvs" and obj: "js_object kvs" by simp_all
    from members_start [OF False] obtain cs
      where c: "commas (stringify_members pr kvs) = 0x22 # cs" by blast
    have "2 * length (commas (stringify_members pr kvs)) + 1 < m"
      using 6(4) n by simp
    from 6(1) [OF ok False this, of r]
    have "parse_members rd m (0x22 # cs @ 0x7D # r) = Parsed kvs r" by (simp add: c)
    moreover have "foldl set_property [] kvs = kvs"
      using foldl_set_property [of "[]" kvs] obj by simp
    ultimately show ?thesis
      unfolding n using c by simp
  qed
next
  case (7 pr)
  then show ?case by simp
next
  case (8 pr v vs)
  then obtain m where n: "n = Suc m" by (cases n) auto
  from 8(3) have v: "json_ok pr rd v" and vs: "elements_ok pr rd vs" by simp_all
  show ?case
  proof (cases "vs = []")
    case True
    have "parse_value rd m (JSON_stringify pr v @ 0x5D # r) = Parsed v (0x5D # r)"
      using 8(5) n True by (intro 8(1) [OF v]) (simp_all add: delimited_def)
    then show ?thesis unfolding n using True by simp
  next
    case False
    then obtain w ws where w: "vs = w # ws" by (cases vs) auto
    let ?rest = "commas (stringify_elements pr vs)"
    have eq: "commas (stringify_elements pr (v # vs)) = JSON_stringify pr v @ 0x2C # ?rest"
      by (simp add: w)
    from elements_start [OF vs False] obtain c cs
      where c: "?rest = c # cs" "value_start c" by blast
    have "parse_value rd m (JSON_stringify pr v @ 0x2C # ?rest @ 0x5D # r) = Parsed v (0x2C # ?rest @ 0x5D # r)"
      using 8(5) n eq by (intro 8(1) [OF v]) (simp_all add: delimited_def)
    moreover have "parse_elements rd m (?rest @ 0x5D # r) = Parsed vs r"
      using 8(5) n eq by (intro 8(2) [OF vs False]) simp
    ultimately show ?thesis
      unfolding n eq using c by (simp add: skip_ws_start)
  qed
next
  case (9 pr)
  then show ?case by simp
next
  case (10 pr k v kvs)
  then obtain m where n: "n = Suc m" by (cases n) auto
  from 10(3) have v: "json_ok pr rd v" and kvs: "members_ok pr rd kvs" by simp_all
  from stringify_start [OF v] obtain c cs where c: "JSON_stringify pr v = c # cs" "value_start c"
    by blast
  have key: "string_chars (quote_units k @ 0x22 # t) = Some (k, t)" for t
    by (rule string_chars_quote_units)
  show ?case
  proof (cases "kvs = []")
    case True
    have "parse_value rd m (JSON_stringify pr v @ 0x7D # r) = Parsed v (0x7D # r)"
      using 10(5) n True by (intro 10(1) [OF v]) (simp_all add: delimited_def)
    then show ?thesis
      unfolding n using True c by (simp add: QuoteJSONString_def key skip_ws_start)
  next
    case False
    let ?rest = "commas (stringify_members pr kvs)"
    obtain k' v' kvs' where w: "kvs = (k', v') # kvs'" using False by (cases kvs) auto
    have eq: "commas (stringify_members pr ((k, v) # kvs))
                = (QuoteJSONString k @ 0x3A # JSON_stringify pr v) @ 0x2C # ?rest"
      by (simp add: w)
    from members_start [OF False] obtain ds where d: "?rest = 0x22 # ds" by blast
    have "parse_value rd m (JSON_stringify pr v @ 0x2C # ?rest @ 0x7D # r) = Parsed v (0x2C # ?rest @ 0x7D # r)"
      using 10(5) n eq by (intro 10(1) [OF v]) (simp_all add: delimited_def)
    moreover have "parse_members rd m (?rest @ 0x7D # r) = Parsed kvs r"
      using 10(5) n eq by (intro 10(2) [OF kvs False]) simp
    ultimately show ?thesis
      unfolding n eq using c d by (simp add: QuoteJSONString_def key skip_ws_start)
  qed
qed

theorem JSON_parse_stringify:
  assumes "json_ok pr rd v"
  shows "JSON_parse rd (JSON_stringify pr v) = Inr v"
proof -
  from stringify_start [OF assms] obtain c cs
    where c: "JSON_stringify pr v = c # cs" "value_start c" by blast
  have "parse_value rd (Suc (2 * length (JSON_stringify pr v))) (JSON_stringify pr v @ []) = Parsed v []"
    by (rule parse_stringify(1) [OF assms]) (simp_all add: delimited_def)
  then show ?thesis
    unfolding JSON_parse_def using c by (simp add: skip_ws_start) (simp add: skip_ws_def)
qed

section \<open>The fuel of the parser is enough\<close>

lemma length_skip_ws: "length (skip_ws cs) \<le> length cs"
  unfolding skip_ws_def by (rule length_dropWhile_le)

lemma cons_result_Some:
  "cons_result c x = Some (s, r) \<Longrightarrow> \<exists>s'. x = Some (s', r)"
  by (cases x) (auto simp: cons_result_def)

lemma string_chars_length: "string_chars cs = Some (s, r) \<Longrightarrow> length r < length cs"
proof (induction cs arbitrary: s rule: string_chars.induct)
  case 1
  then show ?case by simp
next
  case (2 c cs)
  show ?case
  proof (cases "c = 0x22")
    case True
    with 2(4) show ?thesis by simp
  next
    case nq: False
    show ?thesis
    proof (cases "c = 0x5C")
      case False
      with nq 2(4) have nc: "\<not> c < 0x20" by (auto split: if_splits)
      with False nq 2(4) obtain s' where "string_chars cs = Some (s', r)"
        by (auto dest: cons_result_Some)
      with 2(3) [OF nq False nc] show ?thesis by fastforce
    next
      case True
      from 2(4) nq True obtain e cs1 where cs: "cs = e # cs1" by (cases cs) auto
      show ?thesis
      proof (cases "e = 0x75")
        case False
        with 2(4) nq True cs obtain u s' where "simple_escape e = Some u" "string_chars cs1 = Some (s', r)"
          by (auto split: option.splits dest: cons_result_Some)
        with 2(2) [OF nq True cs False] show ?thesis by (fastforce simp: cs)
      next
        case u: True
        with 2(4) nq True cs obtain h1 h2 h3 h4 cs2 x s'
          where h: "cs1 = h1 # h2 # h3 # h4 # cs2" "hex4 h1 h2 h3 h4 = Some x" "string_chars cs2 = Some (s', r)"
          by (auto split: list.splits option.splits dest: cons_result_Some)
        with 2(1) [OF nq True cs u] show ?thesis by (fastforce simp: cs)
      qed
    qed
  qed
qed

lemma length_digits: "length (snd (digits cs)) \<le> length cs"
  by (simp add: digits_def length_dropWhile_le)

lemma lex_int_length: "lex_int cs = Some (i, r) \<Longrightarrow> length r < length cs"
  using length_digits by (cases cs) (auto simp: lex_int_def less_Suc_eq_le split: if_splits)

lemma lex_frac_length: "lex_frac cs = Some (f, r) \<Longrightarrow> length r \<le> length cs"
  using length_digits by (cases cs) (auto simp: lex_frac_def le_Suc_eq split: if_splits)

lemma lex_sign_length: "length (snd (lex_sign cs)) \<le> length cs"
  by (cases cs) (auto simp: lex_sign_def)

lemma lex_exp_length:
  assumes a: "lex_exp cs = Some (x, r)"
  shows "length r \<le> length cs"
proof (cases cs)
  case Nil
  then show ?thesis using a by (simp add: lex_exp_def)
next
  case (Cons d t)
  show ?thesis
  proof (cases "d = 0x65 \<or> d = 0x45")
    case False
    with a Cons show ?thesis by (auto simp: lex_exp_def)
  next
    case True
    with a Cons have "r = snd (digits (snd (lex_sign t)))"
      by (auto simp: lex_exp_def split_beta split: if_splits)
    then have "length r \<le> length t"
      using length_digits [of "snd (lex_sign t)"] lex_sign_length [of t] by simp
    then show ?thesis by (simp add: Cons)
  qed
qed

lemma lex_number_length:
  assumes "lex_number cs = Some (l, r)"
  shows "length r < length cs"
proof -
  from assms obtain sg r0 i r1 f r2 x
    where s: "(sg, r0) = (case cs of [] \<Rightarrow> ([], cs) | d # t \<Rightarrow> if d = 0x2D then ([d], t) else ([], cs))"
      and i: "lex_int r0 = Some (i, r1)" and f: "lex_frac r1 = Some (f, r2)"
      and x: "lex_exp r2 = Some (x, r)"
    by (auto simp: lex_number_def split: prod.splits option.splits)
  from s have "length r0 \<le> length cs" by (cases cs) (auto split: if_splits)
  with lex_int_length [OF i] lex_frac_length [OF f] lex_exp_length [OF x] show ?thesis by simp
qed

lemma skip_ws_Cons_length: "skip_ws r = d # r1 \<Longrightarrow> length r1 < length r"
  using length_skip_ws [of r] by simp

lemma parse_fuel:
  "(\<forall>cs. (2 * length cs < n \<longrightarrow> parse_value rd n cs \<noteq> OutOfFuel)
      \<and> (\<forall>v r. parse_value rd n cs = Parsed v r \<longrightarrow> length r < length cs))
   \<and> (\<forall>cs. (2 * length cs + 1 < n \<longrightarrow> parse_elements rd n cs \<noteq> OutOfFuel)
      \<and> (\<forall>v r. parse_elements rd n cs = Parsed v r \<longrightarrow> length r < length cs))
   \<and> (\<forall>cs. (2 * length cs + 1 < n \<longrightarrow> parse_members rd n cs \<noteq> OutOfFuel)
      \<and> (\<forall>v r. parse_members rd n cs = Parsed v r \<longrightarrow> length r < length cs))"
proof (induction n)
  case 0
  show ?case by simp
next
  case (Suc n)
  then have V1: "\<And>cs. 2 * length cs < n \<Longrightarrow> parse_value rd n cs \<noteq> OutOfFuel"
    and V2: "\<And>cs v r. parse_value rd n cs = Parsed v r \<Longrightarrow> length r < length cs"
    and E1: "\<And>cs. 2 * length cs + 1 < n \<Longrightarrow> parse_elements rd n cs \<noteq> OutOfFuel"
    and E2: "\<And>cs v r. parse_elements rd n cs = Parsed v r \<Longrightarrow> length r < length cs"
    and M1: "\<And>cs. 2 * length cs + 1 < n \<Longrightarrow> parse_members rd n cs \<noteq> OutOfFuel"
    and M2: "\<And>cs v r. parse_members rd n cs = Parsed v r \<Longrightarrow> length r < length cs"
    by blast+
  have v1: "parse_value rd (Suc n) cs \<noteq> OutOfFuel" if f: "2 * length cs < Suc n" for cs
  proof (cases cs)
    case Nil
    then show ?thesis by simp
  next
    case (Cons c t)
    consider (obj) "c = 0x7B" | (arr) "c \<noteq> 0x7B" "c = 0x5B" | (str) "c \<noteq> 0x7B" "c \<noteq> 0x5B" "c = 0x22"
      | (other) "c \<noteq> 0x7B" "c \<noteq> 0x5B" "c \<noteq> 0x22" by blast
    then show ?thesis
    proof cases
      case obj
      show ?thesis
      proof (cases "skip_ws t")
        case Nil
        then show ?thesis using obj Cons by simp
      next
        case (Cons d r1)
        note sk = this
        have "parse_members rd n (d # r1) \<noteq> OutOfFuel"
          using skip_ws_Cons_length [OF sk] f \<open>cs = c # t\<close> by (intro M1) simp
        then show ?thesis
          using obj \<open>cs = c # t\<close> sk by (cases "parse_members rd n (d # r1)") simp_all
      qed
    next
      case arr
      show ?thesis
      proof (cases "skip_ws t")
        case Nil
        then show ?thesis using arr Cons by simp
      next
        case (Cons d r1)
        note sk = this
        have "parse_elements rd n (d # r1) \<noteq> OutOfFuel"
          using skip_ws_Cons_length [OF sk] f \<open>cs = c # t\<close> by (intro E1) simp
        then show ?thesis
          using arr \<open>cs = c # t\<close> sk by (cases "parse_elements rd n (d # r1)") simp_all
      qed
    next
      case str
      then show ?thesis using Cons by (cases "string_chars t") auto
    next
      case other
      have e: "parse_value rd (Suc n) cs =
                 (if take 4 cs = js ''null'' then Parsed JNull (drop 4 cs)
                  else if take 4 cs = js ''true'' then Parsed (JBool True) (drop 4 cs)
                  else if take 5 cs = js ''false'' then Parsed (JBool False) (drop 5 cs)
                  else (case lex_number cs of None \<Rightarrow> Unexpected
                        | Some (l, r1) \<Rightarrow> Parsed (JNum (rd l)) r1))"
        using other unfolding Cons by (simp del: take_Suc_Cons drop_Suc_Cons)
      show ?thesis unfolding e by (simp split: option.splits)
    qed
  qed
  have v2: "length r < length cs" if p: "parse_value rd (Suc n) cs = Parsed v r" for cs v r
  proof (cases cs)
    case Nil
    then show ?thesis using p by simp
  next
    case (Cons c t)
    consider (obj) "c = 0x7B" | (arr) "c \<noteq> 0x7B" "c = 0x5B" | (str) "c \<noteq> 0x7B" "c \<noteq> 0x5B" "c = 0x22"
      | (other) "c \<noteq> 0x7B" "c \<noteq> 0x5B" "c \<noteq> 0x22" by blast
    then show ?thesis
    proof cases
      case obj
      show ?thesis
      proof (cases "skip_ws t")
        case Nil
        then show ?thesis using p obj Cons by simp
      next
        case (Cons d r1)
        note sk = this
        show ?thesis
        proof (cases "d = 0x7D")
          case True
          then show ?thesis using p obj \<open>cs = c # t\<close> sk skip_ws_Cons_length [OF sk] by auto
        next
          case False
          then obtain ms where "parse_members rd n (d # r1) = Parsed ms r"
            using p obj \<open>cs = c # t\<close> sk by (auto split: presult.splits)
          from M2 [OF this] skip_ws_Cons_length [OF sk] show ?thesis
            using \<open>cs = c # t\<close> by simp
        qed
      qed
    next
      case arr
      show ?thesis
      proof (cases "skip_ws t")
        case Nil
        then show ?thesis using p arr Cons by simp
      next
        case (Cons d r1)
        note sk = this
        show ?thesis
        proof (cases "d = 0x5D")
          case True
          then show ?thesis using p arr \<open>cs = c # t\<close> sk skip_ws_Cons_length [OF sk] by auto
        next
          case False
          then obtain vs where "parse_elements rd n (d # r1) = Parsed vs r"
            using p arr \<open>cs = c # t\<close> sk by (auto split: presult.splits)
          from E2 [OF this] skip_ws_Cons_length [OF sk] show ?thesis
            using \<open>cs = c # t\<close> by simp
        qed
      qed
    next
      case str
      then obtain s where "string_chars t = Some (s, r)"
        using p Cons by (auto split: option.splits)
      from string_chars_length [OF this] show ?thesis using Cons by simp
    next
      case other
      have e: "parse_value rd (Suc n) cs =
                 (if take 4 cs = js ''null'' then Parsed JNull (drop 4 cs)
                  else if take 4 cs = js ''true'' then Parsed (JBool True) (drop 4 cs)
                  else if take 5 cs = js ''false'' then Parsed (JBool False) (drop 5 cs)
                  else (case lex_number cs of None \<Rightarrow> Unexpected
                        | Some (l, r1) \<Rightarrow> Parsed (JNum (rd l)) r1))"
        using other unfolding Cons by (simp del: take_Suc_Cons drop_Suc_Cons)
      consider (lit4) "take 4 cs = js ''null'' \<or> take 4 cs = js ''true''" "r = drop 4 cs"
        | (lit5) "take 5 cs = js ''false''" "r = drop 5 cs"
        | (num) l where "lex_number cs = Some (l, r)"
        using p unfolding e by (auto split: if_splits option.splits)
      then show ?thesis
      proof cases
        case lit4
        then obtain a b c d where "take 4 cs = [a, b, c, d]" by (auto simp: js_def)
        then have "length (take 4 cs) = length [a, b, c, d]" by (rule arg_cong)
        then have "4 \<le> length cs" by simp
        with lit4 show ?thesis by simp
      next
        case lit5
        then obtain a b c d e where "take 5 cs = [a, b, c, d, e]" by (auto simp: js_def)
        then have "length (take 5 cs) = length [a, b, c, d, e]" by (rule arg_cong)
        then have "5 \<le> length cs" by simp
        with lit5 show ?thesis by simp
      next
        case num
        then show ?thesis by (rule lex_number_length)
      qed
    qed
  qed
  have e: "parse_elements rd (Suc n) cs \<noteq> OutOfFuel \<and>
             (\<forall>vs r. parse_elements rd (Suc n) cs = Parsed vs r \<longrightarrow> length r < length cs)"
    if f: "2 * length cs + 1 < Suc n \<or> parse_elements rd (Suc n) cs \<noteq> OutOfFuel" for cs
  proof (cases "parse_value rd n cs")
    case OutOfFuel
    with V1 [of cs] f show ?thesis by auto
  next
    case Unexpected
    then show ?thesis by simp
  next
    case (Parsed v r)
    note pv = this
    from V2 [OF pv] have l1: "length r < length cs" .
    show ?thesis
    proof (cases "skip_ws r")
      case Nil
      then show ?thesis using pv by simp
    next
      case (Cons d r1)
      from skip_ws_Cons_length [OF Cons] have l2: "length r1 < length r" .
      have l3: "length (skip_ws r1) \<le> length r1" by (rule length_skip_ws)
      show ?thesis
      proof (cases "d = 0x2C")
        case False
        then show ?thesis using pv Cons l1 l2 by auto
      next
        case True
        have g: "parse_elements rd n (skip_ws r1) \<noteq> OutOfFuel"
          if "2 * length cs + 1 < Suc n"
          using that l1 l2 l3 by (intro E1) simp
        have h: "length r2 < length cs" if "parse_elements rd n (skip_ws r1) = Parsed vs r2" for vs r2
          using E2 [OF that] l1 l2 l3 by simp
        show ?thesis
          using pv Cons True f g h by (auto split: presult.splits)
      qed
    qed
  qed
  have m: "parse_members rd (Suc n) cs \<noteq> OutOfFuel \<and>
             (\<forall>ms r. parse_members rd (Suc n) cs = Parsed ms r \<longrightarrow> length r < length cs)"
    if f: "2 * length cs + 1 < Suc n \<or> parse_members rd (Suc n) cs \<noteq> OutOfFuel" for cs
  proof (cases cs)
    case Nil
    then show ?thesis by simp
  next
    case (Cons q t)
    note cs = this
    show ?thesis
    proof (cases "q = 0x22")
      case False
      then show ?thesis using cs by simp
    next
      case q: True
      show ?thesis
      proof (cases "string_chars t")
        case None
        then show ?thesis using cs q by simp
      next
        case (Some kr)
        obtain k r1 where kr: "kr = (k, r1)" by (cases kr)
        from string_chars_length [of t k r1] Some kr have l1: "length r1 < length t" by simp
        show ?thesis
        proof (cases "skip_ws r1")
          case Nil
          then show ?thesis using cs q Some kr by simp
        next
          case (Cons d r2)
          note sk1 = this
          from skip_ws_Cons_length [OF sk1] have l2: "length r2 < length r1" .
          have l3: "length (skip_ws r2) \<le> length r2" by (rule length_skip_ws)
          show ?thesis
          proof (cases "d = 0x3A")
            case False
            then show ?thesis using cs q Some kr sk1 by simp
          next
            case colon: True
            show ?thesis
            proof (cases "parse_value rd n (skip_ws r2)")
              case OutOfFuel
              have "2 * length cs + 1 < Suc n \<Longrightarrow> parse_value rd n (skip_ws r2) \<noteq> OutOfFuel"
                using l1 l2 l3 cs by (intro V1) simp
              with OutOfFuel f cs q Some kr sk1 colon show ?thesis by auto
            next
              case Unexpected
              then show ?thesis using cs q Some kr sk1 colon by simp
            next
              case (Parsed v r3)
              note pv = this
              from V2 [OF pv] have l4: "length r3 < length (skip_ws r2)" .
              show ?thesis
              proof (cases "skip_ws r3")
                case Nil
                then show ?thesis using cs q Some kr sk1 colon pv by simp
              next
                case (Cons d' r4)
                note sk3 = this
                from skip_ws_Cons_length [OF sk3] have l5: "length r4 < length r3" .
                have l6: "length (skip_ws r4) \<le> length r4" by (rule length_skip_ws)
                show ?thesis
                proof (cases "d' = 0x2C")
                  case False
                  then show ?thesis
                    using cs q Some kr sk1 colon pv sk3 l1 l2 l3 l4 l5 by auto
                next
                  case True
                  have g: "parse_members rd n (skip_ws r4) \<noteq> OutOfFuel"
                    if "2 * length cs + 1 < Suc n"
                    using that l1 l2 l3 l4 l5 l6 cs by (intro M1) simp
                  have h: "length r5 < length cs"
                    if "parse_members rd n (skip_ws r4) = Parsed ms r5" for ms r5
                    using M2 [OF that] l1 l2 l3 l4 l5 l6 cs by simp
                  show ?thesis
                    using cs q Some kr sk1 colon pv sk3 True f g h
                    by (auto split: presult.splits)
                qed
              qed
            qed
          qed
        qed
      qed
    qed
  qed
  have e1: "parse_elements rd (Suc n) cs \<noteq> OutOfFuel" if "2 * length cs + 1 < Suc n" for cs
    using e [of cs] that by simp
  have e2: "length r < length cs" if "parse_elements rd (Suc n) cs = Parsed vs r" for cs vs r
    using e [of cs] that by simp
  have m1: "parse_members rd (Suc n) cs \<noteq> OutOfFuel" if "2 * length cs + 1 < Suc n" for cs
    using m [of cs] that by simp
  have m2: "length r < length cs" if "parse_members rd (Suc n) cs = Parsed ms r" for cs ms r
    using m [of cs] that by simp
  show ?case
    using v1 v2 e1 e2 m1 m2 by blast
qed

theorem JSON_parse_fuel: "parse_value rd (Suc (2 * length s)) (skip_ws s) \<noteq> OutOfFuel"
proof -
  have "2 * length (skip_ws s) < Suc (2 * length s)"
    using length_skip_ws [of s] by simp
  with parse_fuel [of "Suc (2 * length s)" rd] show ?thesis by blast
qed
section \<open>Rounding and exact arithmetic\<close>

lemma pow2_mono: "a \<le> b \<Longrightarrow> (2::rat) powi a \<le> 2 powi b"
  by (rule power_int_increasing) simp_all

lemma pow2_lessD: "(2::rat) powi a < 2 powi b \<Longrightarrow> a < b"
  using pow2_mono [of b a] by (cases "a < b") auto

lemma pow2_pos: "0 < (2::rat) powi a"
  by simp

lemma ilog2_bounds:
  assumes "0 < x"
  shows "2 powi ilog2 x \<le> x" and "x < 2 powi (ilog2 x + 1)"
proof -
  have "2 powi ilog2 x \<le> x \<and> x < 2 powi (ilog2 x + 1)"
  proof (cases "1 \<le> x")
    case True
    define n where "n = \<lfloor>x\<rfloor>"
    have n: "0 < n" using True by (simp add: n_def)
    from bitlen_bounds [OF n] have b: "2 ^ nat (bitlen n - 1) \<le> n" "n < 2 ^ nat (bitlen n)" by auto
    have b1: "1 \<le> bitlen n" using n by (simp add: bitlen_alt_def)
    have i: "ilog2 x = bitlen n - 1" using True by (simp add: ilog2_def n_def)
    have "(2::rat) powi (bitlen n - 1) = 2 ^ nat (bitlen n - 1)"
      using b1 by (simp add: power_int_nonneg_exp)
    also have "\<dots> = of_int (2 ^ nat (bitlen n - 1))" by simp
    also have "\<dots> \<le> of_int n" using b(1) by (simp only: of_int_le_iff)
    also have "\<dots> \<le> x" by (simp add: n_def)
    finally have l: "2 powi (bitlen n - 1) \<le> x" .
    have "n + 1 \<le> 2 ^ nat (bitlen n)" using b(2) by simp
    then have "(of_int (n + 1) :: rat) \<le> of_int (2 ^ nat (bitlen n))" by (simp only: of_int_le_iff)
    moreover have "x < of_int (n + 1)" unfolding n_def by linarith
    ultimately have "x < of_int (2 ^ nat (bitlen n))" by linarith
    also have "\<dots> = 2 powi (bitlen n)" using b1 by (simp add: power_int_nonneg_exp)
    finally have u: "x < 2 powi (bitlen n)" .
    from l u i show ?thesis by simp
  next
    case False
    define y where "y = 1 / x"
    define k where "k = \<lceil>y\<rceil>"
    have y: "1 < y" using False assms by (simp add: y_def)
    have k: "2 \<le> k" using y unfolding k_def by linarith
    then have k1: "0 < k - 1" by simp
    define c where "c = bitlen (k - 1)"
    from bitlen_bounds [OF k1] have b: "2 ^ nat (c - 1) \<le> k - 1" "k - 1 < 2 ^ nat c"
      by (auto simp: c_def)
    have c1: "1 \<le> c" using k1 by (simp add: bitlen_alt_def c_def)
    have i: "ilog2 x = - c" using False by (simp add: ilog2_def c_def k_def y_def)
    have "k \<le> 2 ^ nat c" using b(2) by simp
    then have "(of_int k :: rat) \<le> of_int (2 ^ nat c)" by (simp only: of_int_le_iff)
    moreover have "y \<le> of_int k" unfolding k_def by linarith
    ultimately have "y \<le> of_int (2 ^ nat c)" by linarith
    also have "\<dots> = 2 ^ nat c" by simp
    also have "\<dots> = 2 powi c" using c1 by (simp add: power_int_nonneg_exp)
    finally have "y \<le> 2 powi c" .
    then have "1 / (2 powi c) \<le> 1 / y" using y by (intro divide_left_mono) auto
    then have l: "2 powi (- c) \<le> x" using assms by (simp add: y_def power_int_minus_divide)
    have "(of_int (2 ^ nat (c - 1)) :: rat) \<le> of_int (k - 1)" using b(1) by (simp only: of_int_le_iff)
    moreover have "of_int (k - 1) < y" unfolding k_def by linarith
    ultimately have "(of_int (2 ^ nat (c - 1)) :: rat) < y" by linarith
    moreover have "(of_int (2 ^ nat (c - 1)) :: rat) = 2 powi (c - 1)"
      using c1 by (simp add: power_int_nonneg_exp)
    ultimately have "2 powi (c - 1) < y" by simp
    then have "1 / y < 1 / (2 powi (c - 1))" using y by (intro divide_strict_left_mono) auto
    then have "x < 1 / (2 powi (c - 1))" using assms by (simp add: y_def)
    moreover have "(2::rat) powi (- (c - 1)) = 1 / 2 powi (c - 1)" by (rule power_int_minus_divide)
    moreover have "- (c - 1) = - c + 1" by simp
    ultimately have u: "x < 2 powi (- c + 1)" by metis
    from l u i show ?thesis by simp
  qed
  then show "2 powi ilog2 x \<le> x" and "x < 2 powi (ilog2 x + 1)" by simp_all
qed

lemma ilog2_unique:
  assumes "2 powi p \<le> x" and "x < 2 powi (p + 1)"
  shows "ilog2 x = p"
proof -
  have x: "0 < x" using assms(1) by (rule less_le_trans [rotated]) simp
  note b = ilog2_bounds [OF x]
  have "(2::rat) powi p < 2 powi (ilog2 x + 1)" using assms(1) b(2) by simp
  then have 1: "p < ilog2 x + 1" by (rule pow2_lessD)
  have "(2::rat) powi ilog2 x < 2 powi (p + 1)" using assms(2) b(1) by simp
  then have 2: "ilog2 x < p + 1" by (rule pow2_lessD)
  from 1 2 show ?thesis by simp
qed

lemma ilog2_mono:
  assumes "0 < x" and "x \<le> y"
  shows "ilog2 x \<le> ilog2 y"
proof -
  have y: "0 < y" using assms by simp
  have "(2::rat) powi ilog2 x < 2 powi (ilog2 y + 1)"
    using ilog2_bounds(1) [OF assms(1)] ilog2_bounds(2) [OF y] assms(2) by simp
  then have "ilog2 x < ilog2 y + 1" by (rule pow2_lessD)
  then show ?thesis by simp
qed

lemma round_even_cases: "round_even x = \<lfloor>x\<rfloor> \<or> round_even x = \<lfloor>x\<rfloor> + 1"
  by (simp add: round_even_def Let_def)

lemma round_even_of_int: "round_even (of_int k) = k"
  by (simp add: round_even_def)

lemma round_even_mono:
  assumes "a \<le> b"
  shows "round_even a \<le> round_even b"
proof (cases "\<lfloor>a\<rfloor> = \<lfloor>b\<rfloor>")
  case True
  then have "a - of_int \<lfloor>a\<rfloor> \<le> b - of_int \<lfloor>b\<rfloor>" using assms by simp
  then show ?thesis using True by (auto simp: round_even_def Let_def)
next
  case False
  have "\<lfloor>a\<rfloor> \<le> \<lfloor>b\<rfloor>" using assms by (rule floor_mono)
  with False have "\<lfloor>a\<rfloor> + 1 \<le> \<lfloor>b\<rfloor>" by simp
  then show ?thesis using round_even_cases [of a] round_even_cases [of b] by auto
qed

lemma round_even_ge: "of_int k \<le> a \<Longrightarrow> k \<le> round_even a"
  using round_even_mono [of "of_int k" a] by (simp add: round_even_of_int)

lemma round_even_le: "a \<le> of_int k \<Longrightarrow> round_even a \<le> k"
  using round_even_mono [of a "of_int k"] by (simp add: round_even_of_int)

lemma pow2_nat: "0 \<le> n \<Longrightarrow> (2::rat) powi n = of_int (2 ^ nat n)"
  by (simp add: power_int_nonneg_exp)

lemma pow2_diff: "(2::rat) powi a / 2 powi b = 2 powi (a - b)"
  by (simp add: power_int_diff)

lemma pow2_add: "(2::rat) powi a * 2 powi b = 2 powi (a + b)"
  by (simp add: power_int_add)

lemma round_magnitude_nonneg:
  assumes "0 < x"
  shows "0 \<le> round_magnitude x"
proof -
  have "of_int 0 \<le> x / 2 powi grid_exponent x" using assms by simp
  then have "0 \<le> round_even (x / 2 powi grid_exponent x)" by (rule round_even_ge)
  then show ?thesis by (simp add: round_magnitude_def)
qed

lemma round_magnitude_lower:
  assumes "0 < x" and "grid_exponent x \<le> ilog2 x"
  shows "2 powi ilog2 x \<le> round_magnitude x"
proof -
  let ?e = "grid_exponent x" and ?p = "ilog2 x"
  have "2 powi ?p / 2 powi ?e \<le> x / 2 powi ?e"
    using ilog2_bounds(1) [OF assms(1)] by (simp add: divide_right_mono)
  then have "of_int (2 ^ nat (?p - ?e)) \<le> x / 2 powi ?e"
    using assms(2) by (simp only: pow2_diff pow2_nat)
  then have "2 ^ nat (?p - ?e) \<le> round_even (x / 2 powi ?e)" by (rule round_even_ge)
  then have "(of_int (2 ^ nat (?p - ?e)) :: rat) \<le> of_int (round_even (x / 2 powi ?e))"
    by (simp only: of_int_le_iff)
  then have "of_int (2 ^ nat (?p - ?e)) * 2 powi ?e \<le> round_magnitude x"
    unfolding round_magnitude_def by (rule mult_right_mono) simp
  moreover have "(of_int (2 ^ nat (?p - ?e)) :: rat) * 2 powi ?e = 2 powi ?p"
    using assms(2) pow2_nat [of "?p - ?e", symmetric] by (simp add: pow2_add)
  ultimately show ?thesis by simp
qed

lemma round_magnitude_upper:
  assumes "0 < x"
  shows "round_magnitude x \<le> 2 powi max (ilog2 x + 1) (grid_exponent x)"
proof -
  let ?e = "grid_exponent x" and ?p = "ilog2 x"
  let ?q = "max (?p + 1) ?e"
  have q: "0 \<le> ?q - ?e" by simp
  have "x / 2 powi ?e \<le> 2 powi (?p + 1) / 2 powi ?e"
    using ilog2_bounds(2) [OF assms(1)] by (simp add: divide_right_mono)
  also have "\<dots> \<le> 2 powi ?q / 2 powi ?e"
    by (intro divide_right_mono pow2_mono) simp_all
  also have "\<dots> = of_int (2 ^ nat (?q - ?e))"
    using q by (simp only: pow2_diff pow2_nat)
  finally have "round_even (x / 2 powi ?e) \<le> 2 ^ nat (?q - ?e)" by (rule round_even_le)
  then have "(of_int (round_even (x / 2 powi ?e)) :: rat) \<le> of_int (2 ^ nat (?q - ?e))"
    by (simp only: of_int_le_iff)
  then have "round_magnitude x \<le> of_int (2 ^ nat (?q - ?e)) * 2 powi ?e"
    unfolding round_magnitude_def by (rule mult_right_mono) simp
  moreover have "(of_int (2 ^ nat (?q - ?e)) :: rat) * 2 powi ?e = 2 powi ?q"
    using q pow2_nat [of "?q - ?e", symmetric] by (simp add: pow2_add)
  ultimately show ?thesis by simp
qed

lemma round_magnitude_mono:
  assumes "0 < x" and "x \<le> y"
  shows "round_magnitude x \<le> round_magnitude y"
proof -
  have y: "0 < y" using assms by simp
  have p: "ilog2 x \<le> ilog2 y" using assms by (rule ilog2_mono)
  then have e: "grid_exponent x \<le> grid_exponent y" by (simp add: grid_exponent_def)
  show ?thesis
  proof (cases "grid_exponent x = grid_exponent y")
    case True
    have "x / 2 powi grid_exponent y \<le> y / 2 powi grid_exponent y"
      using assms(2) by (simp add: divide_right_mono)
    then have "round_even (x / 2 powi grid_exponent y) \<le> round_even (y / 2 powi grid_exponent y)"
      by (rule round_even_mono)
    then have "(of_int (round_even (x / 2 powi grid_exponent y)) :: rat)
                 \<le> of_int (round_even (y / 2 powi grid_exponent y))"
      by (simp only: of_int_le_iff)
    then show ?thesis
      unfolding round_magnitude_def True by (rule mult_right_mono) simp
  next
    case False
    with e have l: "grid_exponent x < grid_exponent y" by simp
    then have gy: "grid_exponent y = ilog2 y - 52" and px: "ilog2 x < ilog2 y"
      by (auto simp: grid_exponent_def max_def split: if_splits)
    have "round_magnitude x \<le> 2 powi max (ilog2 x + 1) (grid_exponent x)"
      using assms(1) by (rule round_magnitude_upper)
    also have "\<dots> \<le> 2 powi ilog2 y"
      using l gy px by (intro pow2_mono) simp
    also have "\<dots> \<le> round_magnitude y"
      using y gy by (intro round_magnitude_lower) simp_all
    finally show ?thesis .
  qed
qed

lemma round_magnitude_int:
  assumes "0 < i" and "i < 2 ^ 53"
  shows "round_magnitude (of_int i) = of_int i"
proof -
  let ?x = "of_int i :: rat"
  have x: "0 < ?x" using assms(1) by simp
  have "?x < of_int (2 ^ 53)" using assms(2) by (simp only: of_int_less_iff)
  then have "?x < 2 powi 53" by simp
  with ilog2_bounds(1) [OF x] have "(2::rat) powi ilog2 ?x < 2 powi 53" by simp
  then have "ilog2 ?x < 53" by (rule pow2_lessD)
  then have e: "grid_exponent ?x \<le> 0" by (simp add: grid_exponent_def)
  define k where "k = nat (- grid_exponent ?x)"
  have g: "(2::rat) powi grid_exponent ?x = 1 / 2 ^ k"
    using e by (simp add: k_def power_int_def inverse_eq_divide power_one_over)
  have "?x / 2 powi grid_exponent ?x = of_int (i * 2 ^ k)" by (simp add: g)
  then have "round_even (?x / 2 powi grid_exponent ?x) = i * 2 ^ k"
    by (simp only: round_even_of_int)
  then show ?thesis by (simp add: round_magnitude_def g)
qed

lemma nearest_mono:
  assumes "x \<le> y"
  shows "nearest x \<le> nearest y"
proof -
  consider (pos) "0 < x" | (mid) "x \<le> 0" "0 \<le> y" | (neg) "y < 0" using assms by linarith
  then show ?thesis
  proof cases
    case pos
    then have "0 < y" using assms by simp
    with pos round_magnitude_mono [OF pos assms] show ?thesis by (simp add: nearest_def)
  next
    case mid
    have "nearest x \<le> 0"
      using mid(1) round_magnitude_nonneg [of "\<bar>x\<bar>"]
      by (cases "x = 0") (simp_all add: nearest_def mult_le_0_iff)
    moreover have "0 \<le> nearest y"
      using mid(2) round_magnitude_nonneg [of "\<bar>y\<bar>"]
      by (cases "y = 0") (simp_all add: nearest_def)
    ultimately show ?thesis by simp
  next
    case neg
    then have x: "x < 0" using assms by simp
    have "round_magnitude \<bar>y\<bar> \<le> round_magnitude \<bar>x\<bar>"
      using neg assms by (intro round_magnitude_mono) simp_all
    then show ?thesis using neg x by (simp add: nearest_def)
  qed
qed

lemma nearest_int:
  assumes "\<bar>i\<bar> < 2 ^ 53"
  shows "nearest (of_int i) = of_int i"
proof -
  consider "i = 0" | "0 < i" | "i < 0" by linarith
  then show ?thesis
  proof cases
    case 1
    then show ?thesis by (simp add: nearest_def)
  next
    case 2
    with assms round_magnitude_int [of i] show ?thesis by (simp add: nearest_def)
  next
    case 3
    with assms round_magnitude_int [of "- i"] show ?thesis by (simp add: nearest_def)
  qed
qed

lemma rnd_int:
  assumes "\<bar>i\<bar> < 2 ^ 53"
  shows "rnd (of_int i) = Fin (of_int i)"
proof -
  have "\<bar>i\<bar> < 2 ^ 1024" using assms by (rule less_trans) simp
  then have "(of_int \<bar>i\<bar> :: rat) < of_int (2 ^ 1024)" by (simp only: of_int_less_iff)
  then have "\<not> 2 ^ 1024 \<le> \<bar>of_int i :: rat\<bar>" by simp
  then show ?thesis by (simp add: rnd_def nearest_int [OF assms])
qed

lemma rnd_mono:
  assumes "x \<le> y"
  shows "\<not> js_gt (rnd x) (rnd y)"
proof -
  have n: "nearest x \<le> nearest y" using assms by (rule nearest_mono)
  have sx: "x < 0 \<Longrightarrow> nearest x \<le> 0" "0 \<le> x \<Longrightarrow> 0 \<le> nearest x" for x
    using nearest_mono [of x 0] nearest_mono [of 0 x] by (simp_all add: nearest_def)
  show ?thesis
    using n assms sx [of x] sx [of y]
    by (auto simp: rnd_def js_gt_def Let_def abs_if split: if_splits)
qed

lemma rnd_zero: "rnd 0 = Fin 0"
  by (simp add: rnd_def nearest_def)

lemma js_add_Fin: "js_add (Fin a) (Fin b) = rnd (a + b)"
  by (simp add: js_add_def rnd_zero)

lemma js_sub_Fin: "js_sub (Fin a) (Fin b) = rnd (a - b)"
  by (simp add: js_sub_def js_add_def rnd_zero)

lemma js_mul_Fin:
  "js_mul (Fin a) (Fin b) = (if a * b = 0 \<and> (a < 0) \<noteq> (b < 0) then NegZero else rnd (a * b))"
  by (auto simp: js_mul_def rnd_zero)

lemma js_gt_Fin: "js_gt (Fin a) (Fin b) = (b < a)"
  by (simp add: js_gt_def)

text \<open>On whole numbers below \<open>2\<^sup>5\<^sup>3\<close> in magnitude the arithmetic is exact.\<close>

lemma time_value_int: "\<bar>t\<bar> < 2 ^ 53 \<Longrightarrow> time_value t = Fin (of_int t)"
  by (simp add: time_value_def rnd_int)

lemma js_add_int:
  "\<bar>a + b\<bar> < 2 ^ 53 \<Longrightarrow> js_add (Fin (of_int a)) (Fin (of_int b)) = Fin (of_int (a + b))"
  using rnd_int [of "a + b"] by (simp add: js_add_Fin)

lemma js_sub_int:
  "\<bar>a - b\<bar> < 2 ^ 53 \<Longrightarrow> js_sub (Fin (of_int a)) (Fin (of_int b)) = Fin (of_int (a - b))"
  using rnd_int [of "a - b"] by (simp add: js_sub_Fin)

lemma js_mul_int:
  "\<bar>a * 1000\<bar> < 2 ^ 53 \<Longrightarrow> js_mul (Fin (of_int a)) (Fin 1000) = Fin (of_int (a * 1000))"
  using rnd_int [of "a * 1000"] by (simp add: js_mul_Fin rnd_zero)

lemma js_gt_int: "js_gt (Fin (of_int a)) (Fin (of_int b)) = (b < a)"
  by (simp add: js_gt_Fin)

text \<open>More than five minutes left, in exact terms, is no refresh in the code's terms.\<close>

lemma not_due:
  assumes "of_int t + 300000 \<le> x"
  shows "\<not> js_gt (time_value t) (js_sub (Fin x) (Fin 300000))"
  unfolding time_value_def js_sub_Fin using assms by (intro rnd_mono) simp

text \<open>On safe integers the test of the code says that less than five minutes are left.\<close>

lemma refresh_due_int:
  assumes "safe_integer t" and "safe_integer (a - 300000)"
  shows "js_gt (time_value t) (js_sub (Fin (of_int a)) (Fin 300000)) \<longleftrightarrow> a < t + 300000"
proof -
  have s: "\<bar>t\<bar> < 2 ^ 53" "\<bar>a - 300000\<bar> < 2 ^ 53"
    using assms by (simp_all add: safe_integer_def)
  have "js_sub (Fin (of_int a)) (Fin (of_int 300000)) = Fin (of_int (a - 300000))"
    using s(2) by (rule js_sub_int)
  then have "js_sub (Fin (of_int a)) (Fin 300000) = Fin (of_int (a - 300000))" by simp
  then show ?thesis
    by (simp only: time_value_int [OF s(1)] js_gt_int) auto
qed

text \<open>The expiry the code computes, when the time and \<open>expires_in\<close> are whole and safe.\<close>

lemma exact_expiry:
  assumes "ToNumber (expires_in tr) = Fin (of_int n)" and "safe_integer t"
    and "safe_integer (n * 1000)" and "safe_integer (t + n * 1000)"
  shows "json_numeric (Number (js_add (time_value t) (js_mul (ToNumber (expires_in tr)) (Fin 1000))))
           = Number (Fin (of_int (t + n * 1000)))"
    and "js_gt (ToNumber (json_numeric (Number (js_add (time_value t)
                  (js_mul (ToNumber (expires_in tr)) (Fin 1000)))))) (time_value t) \<longleftrightarrow> 0 < n"
proof -
  have s: "\<bar>t\<bar> < 2 ^ 53" "\<bar>n * 1000\<bar> < 2 ^ 53" "\<bar>t + n * 1000\<bar> < 2 ^ 53"
    using assms(2-4) by (simp_all add: safe_integer_def)
  have e: "js_add (time_value t) (js_mul (ToNumber (expires_in tr)) (Fin 1000))
             = Fin (of_int (t + n * 1000))"
    by (simp only: assms(1) time_value_int [OF s(1)] js_mul_int [OF s(2)] js_add_int [OF s(3)])
  show "json_numeric (Number (js_add (time_value t) (js_mul (ToNumber (expires_in tr)) (Fin 1000))))
           = Number (Fin (of_int (t + n * 1000)))"
    unfolding e by simp
  show "js_gt (ToNumber (json_numeric (Number (js_add (time_value t)
                  (js_mul (ToNumber (expires_in tr)) (Fin 1000)))))) (time_value t) \<longleftrightarrow> 0 < n"
    by (simp only: time_value_int [OF s(1)] e [unfolded time_value_int [OF s(1)]]
          json_numeric.simps ToNumber.simps js_gt_int) simp
qed

lemma missing_expiry:
  "json_numeric (Number (js_add x (js_mul (ToNumber Undefined) (Fin 1000)))) = Null"
  by (simp add: js_mul_def js_add_def)

lemma expiry_written:
  assumes "expiresAt td =
             json_numeric (Number (js_add (time_value t) (js_mul (ToNumber (expires_in tr)) (Fin 1000))))"
  shows "(\<forall>n. ToNumber (expires_in tr) = Fin (of_int n) \<and> safe_integer t
               \<and> safe_integer (n * 1000) \<and> safe_integer (t + n * 1000)
            \<longrightarrow> expiresAt td = Number (Fin (of_int (t + n * 1000)))
                \<and> (js_gt (ToNumber (expiresAt td)) (time_value t) \<longleftrightarrow> 0 < n))
         \<and> (expires_in tr = Undefined \<longrightarrow> expiresAt td = Null)"
proof (intro conjI allI impI)
  fix n
  assume "ToNumber (expires_in tr) = Fin (of_int n) \<and> safe_integer t
               \<and> safe_integer (n * 1000) \<and> safe_integer (t + n * 1000)"
  then have "ToNumber (expires_in tr) = Fin (of_int n)" "safe_integer t"
    "safe_integer (n * 1000)" "safe_integer (t + n * 1000)"
    by simp_all
  from exact_expiry [OF this]
  show "expiresAt td = Number (Fin (of_int (t + n * 1000)))"
    and "js_gt (ToNumber (expiresAt td)) (time_value t) \<longleftrightarrow> 0 < n"
    unfolding assms by simp_all
next
  assume "expires_in tr = Undefined"
  then show "expiresAt td = Null" unfolding assms by (simp only: missing_expiry)
qed

section \<open>The Microsoft routes, step by step\<close>

text \<open>Each helper makes exactly one call.\<close>

lemma refreshMicrosoftToken_trace: "snd (refreshMicrosoftToken w e rt) = [FetchCall (refresh_request e rt)]"
  by (simp add: refreshMicrosoftToken_def Let_def split: sum.splits)

lemma exchangeCodeForToken_trace:
  "snd (exchangeCodeForToken w e req code) = [FetchCall (exchange_request e req code)]"
  by (simp add: exchangeCodeForToken_def Let_def split: sum.splits)

lemma getMicrosoftUserInfo_trace:
  "snd (getMicrosoftUserInfo w token) = [FetchCall (user_info_request token)]"
  by (simp add: getMicrosoftUserInfo_def Let_def split: sum.splits)

text \<open>The three ways the \<open>try\<close> block ends once the nonce has been found, and the
  one way it ends when it has not.\<close>

lemma ms_callback_try_found:
  assumes "ms_oauth_state st state = Some userId"
  shows "ms_callback_try w e req code state st =
     (case fst (exchangeCodeForToken w e req code) of
        Inl ex \<Rightarrow>
          (Inl ex, st\<lparr>ms_oauth_state := (ms_oauth_state st)(state := None)\<rparr>,
           [KvGet (ms_oauth_state_key state), KvDelete (ms_oauth_state_key state),
            FetchCall (exchange_request e req code)])
      | Inr tokenResponse \<Rightarrow>
          (case fst (getMicrosoftUserInfo w (access_token tokenResponse)) of
             Inl ex \<Rightarrow>
               (Inl ex, st\<lparr>ms_oauth_state := (ms_oauth_state st)(state := None)\<rparr>,
                [KvGet (ms_oauth_state_key state), KvDelete (ms_oauth_state_key state),
                 FetchCall (exchange_request e req code),
                 FetchCall (user_info_request (access_token tokenResponse))])
           | Inr u \<Rightarrow>
               (Inr (c_html (SuccessPage (displayName u) (ms_email u)) 200),
                st\<lparr>ms_oauth_state := (ms_oauth_state st)(state := None),
                   ms_tokens := (ms_tokens st)(userId \<mapsto> stored (new_token_data w tokenResponse u))\<rparr>,
                [KvGet (ms_oauth_state_key state), KvDelete (ms_oauth_state_key state),
                 FetchCall (exchange_request e req code),
                 FetchCall (user_info_request (access_token tokenResponse)),
                 KvPut (ms_tokens_key userId) (TokenData (stored (new_token_data w tokenResponse u))) TOKEN_TTL])))"
proof -
  obtain x fx where x: "exchangeCodeForToken w e req code = (x, fx)"
    by (cases "exchangeCodeForToken w e req code")
  with exchangeCodeForToken_trace [of w e req code]
  have fx: "fx = [FetchCall (exchange_request e req code)]" by simp
  show ?thesis
  proof (cases x)
    case (Inl ex)
    then show ?thesis using assms x fx by (simp add: ms_callback_try_def Let_def)
  next
    case (Inr tr)
    obtain y fy where y: "getMicrosoftUserInfo w (access_token tr) = (y, fy)"
      by (cases "getMicrosoftUserInfo w (access_token tr)")
    with getMicrosoftUserInfo_trace [of w "access_token tr"]
    have fy: "fy = [FetchCall (user_info_request (access_token tr))]" by simp
    show ?thesis using assms x fx Inr y fy
      by (cases y) (simp_all add: ms_callback_try_def Let_def)
  qed
qed

lemma ms_callback_try_missing:
  assumes "ms_oauth_state st state = None"
  shows "ms_callback_try w e req code state st =
           (Inl (Exn Error (js ''Invalid or expired state parameter'')), st,
            [KvGet (ms_oauth_state_key state)])"
  using assms by (simp add: ms_callback_try_def)

text \<open>A request with a code, a state and no error parameter reaches the \<open>try\<close> block.\<close>

lemma ms_callback_reaches:
  assumes "\<not> truthy_str (query req (js ''error''))"
    and "query req (js ''code'') = Some code" and "code \<noteq> []"
    and "query req (js ''state'') = Some state" and "state \<noteq> []"
  shows "ms_callback w e req st =
     (case ms_callback_try w e req code state st of
        (Inr r, st', fx) \<Rightarrow> (r, st', fx)
      | (Inl ex, st', fx) \<Rightarrow>
          (c_html (ErrorPage (message ex) (template_str (query req (js ''userId'')))) 500, st',
           fx @ [ConsoleError [LStr (js ''Microsoft OAuth callback error:''), LExn ex]]))"
  using assms by (simp add: ms_callback_def Let_def)

text \<open>Where a write to the store comes from.\<close>

lemma ms_callback_put:
  assumes "KvPut k v ttl \<in> set (snd (snd (ms_callback w e req st)))"
  shows "\<exists>code state userId tr u.
           query req (js ''code'') = Some code \<and> query req (js ''state'') = Some state
           \<and> ms_oauth_state st state = Some userId
           \<and> fst (exchangeCodeForToken w e req code) = Inr tr
           \<and> fst (getMicrosoftUserInfo w (access_token tr)) = Inr u
           \<and> k = ms_tokens_key userId \<and> v = TokenData (stored (new_token_data w tr u)) \<and> ttl = TOKEN_TTL
           \<and> snd (snd (ms_callback w e req st)) =
                 [KvGet (ms_oauth_state_key state), KvDelete (ms_oauth_state_key state),
                  FetchCall (exchange_request e req code),
                  FetchCall (user_info_request (access_token tr)),
                  KvPut k v ttl]"
proof (cases "truthy_str (query req (js ''error''))")
  case True
  then show ?thesis using assms by (simp add: ms_callback_def Let_def)
next
  case ne: False
  show ?thesis
  proof (cases "truthy_str (query req (js ''code'')) \<and> truthy_str (query req (js ''state''))")
    case False
    then show ?thesis using assms ne by (auto simp: ms_callback_def Let_def)
  next
    case True
    then obtain code state where c: "query req (js ''code'') = Some code" "code \<noteq> []"
      and s: "query req (js ''state'') = Some state" "state \<noteq> []"
      by (cases "query req (js ''code'')"; cases "query req (js ''state'')") auto
    note r = ms_callback_reaches [OF ne c s, of w e st]
    show ?thesis
    proof (cases "ms_oauth_state st state")
      case None
      then show ?thesis using assms r by (simp add: ms_callback_try_missing)
    next
      case (Some userId)
      show ?thesis
      proof (cases "fst (exchangeCodeForToken w e req code)")
        case (Inl ex)
        then show ?thesis using assms r by (simp add: ms_callback_try_found [OF Some])
      next
        case (Inr tr)
        note x = this
        show ?thesis
        proof (cases "fst (getMicrosoftUserInfo w (access_token tr))")
          case (Inl ex)
          then show ?thesis using assms r x by (simp add: ms_callback_try_found [OF Some])
        next
          case (Inr u)
          then show ?thesis using assms r x c s Some
            by (simp add: ms_callback_try_found [OF Some])
        qed
      qed
    qed
  qed
qed

lemma getMicrosoftTokens_put:
  assumes "KvPut k v ttl \<in> set (snd (snd (getMicrosoftTokens w e userId st)))"
  shows "\<exists>tokens rt tr. ms_tokens st userId = Some tokens \<and> refreshToken tokens = Some rt
           \<and> fst (refreshMicrosoftToken w e rt) = Inr tr
           \<and> k = ms_tokens_key userId \<and> v = TokenData (stored (refreshed w tokens tr))"
proof (cases "ms_tokens st userId")
  case None
  then show ?thesis using assms by (simp add: getMicrosoftTokens_def)
next
  case (Some tokens)
  show ?thesis
  proof (cases "truthy_str (refreshToken tokens)
      \<and> js_gt (time_value (date_now w 0)) (js_sub (ToNumber (expiresAt tokens)) (Fin 300000))")
    case False
    then show ?thesis using assms Some by (auto simp: getMicrosoftTokens_def)
  next
    case True
    then obtain rt where rt: "refreshToken tokens = Some rt" by (cases "refreshToken tokens") auto
    obtain x fx where x: "refreshMicrosoftToken w e rt = (x, fx)"
      by (cases "refreshMicrosoftToken w e rt")
    with refreshMicrosoftToken_trace [of w e rt] have fx: "fx = [FetchCall (refresh_request e rt)]"
      by simp
    show ?thesis using assms Some True rt x fx
      by (cases x) (auto simp: getMicrosoftTokens_def Let_def)
  qed
qed


lemma ms_callback_unknown:
  assumes "\<not> truthy_str (query req (js ''error''))"
    and "query req (js ''code'') = Some code" and "code \<noteq> []"
    and "query req (js ''state'') = Some state" and "state \<noteq> []"
    and "ms_oauth_state st state = None"
  shows "ms_callback w e req st =
           (c_html (ErrorPage (js ''Invalid or expired state parameter'')
                      (template_str (query req (js ''userId'')))) 500,
            st,
            [KvGet (ms_oauth_state_key state),
             ConsoleError [LStr (js ''Microsoft OAuth callback error:''),
                           LExn (Exn Error (js ''Invalid or expired state parameter''))]])"
  unfolding ms_callback_reaches [OF assms(1-5)] by (simp add: ms_callback_try_missing [OF assms(6)])

text \<open>The concrete inputs, evaluated.\<close>

lemma ex_req_query:
  "query ex_req (js ''code'') = Some (js ''validcode'')"
  "query ex_req (js ''state'') = Some (js ''nonce1'')"
  "query ex_req (js ''error'') = None"
  "query ex_req (js ''error_description'') = None"
  "query ex_req (js ''userId'') = None"
  by (simp_all add: ex_req_def js_def)

lemma ex_nonempty: "js ''validcode'' \<noteq> []" "js ''nonce1'' \<noteq> []" "js ''ref1'' \<noteq> []"
  by (simp_all add: js_def)

lemma ex_exchange_down:
  "fst (exchangeCodeForToken ex_world_down ex_env ex_req code)
     = Inl (Exn Error (js ''Token exchange failed: invalid_grant''))"
  by (simp add: exchangeCodeForToken_def ex_world_down_def ok_def Let_def js_def)

lemma ex_exchange_ok:
  "fst (exchangeCodeForToken (ex_world n) ex_env ex_req code) = Inr (ex_token_response n)"
  by (simp add: exchangeCodeForToken_def ex_world_def ok_def Let_def)

lemma ex_user_ok:
  "fst (getMicrosoftUserInfo (ex_world n) token) = Inr ex_user"
  by (simp add: getMicrosoftUserInfo_def ex_world_def ok_def Let_def)

lemma ex_store_nonce: "ms_oauth_state (ex_store t) (js ''nonce1'') = Some (js ''alice'')"
  by (simp add: ex_store_def)

lemma ex_callback_ok:
  "ms_callback (ex_world n) ex_env ex_req (ex_store t) =
     (c_html (SuccessPage (js ''Alice'') (js ''a@example.com'')) 200,
      (ex_store t)\<lparr>ms_oauth_state := (ms_oauth_state (ex_store t))(js ''nonce1'' := None),
                   ms_tokens := (ms_tokens (ex_store t))
                     (js ''alice'' \<mapsto> stored (new_token_data (ex_world n) (ex_token_response n) ex_user))\<rparr>,
      [KvGet (ms_oauth_state_key (js ''nonce1'')), KvDelete (ms_oauth_state_key (js ''nonce1'')),
       FetchCall (exchange_request ex_env ex_req (js ''validcode'')),
       FetchCall (user_info_request (js ''tok2'')),
       KvPut (ms_tokens_key (js ''alice''))
         (TokenData (stored (new_token_data (ex_world n) (ex_token_response n) ex_user))) TOKEN_TTL])"
proof -
  have m: "ms_email ex_user = js ''a@example.com''" "displayName ex_user = js ''Alice''"
    "access_token (ex_token_response n) = js ''tok2''"
    by (simp_all add: ms_email_def ex_user_def ex_token_response_def js_def)
  show ?thesis
    unfolding ms_callback_reaches [of ex_req "js ''validcode''" "js ''nonce1''", OF _ ex_req_query(1) ex_nonempty(1) ex_req_query(2) ex_nonempty(2), simplified ex_req_query, simplified]
    by (simp add: ms_callback_try_found [OF ex_store_nonce] ex_exchange_ok ex_user_ok m)
qed

text \<open>When the Microsoft callback reaches the token endpoint, and what it answers when it does not.\<close>

lemma ms_callback_fetches:
  "list_ex is_fetch (snd (snd (ms_callback w e req st))) \<longleftrightarrow>
     (\<not> truthy_str (query req (js ''error''))
      \<and> (\<exists>code state. query req (js ''code'') = Some code \<and> code \<noteq> []
             \<and> query req (js ''state'') = Some state \<and> state \<noteq> []
             \<and> ms_oauth_state st state \<noteq> None))"
proof (cases "truthy_str (query req (js ''error''))")
  case True
  then show ?thesis by (simp add: ms_callback_def Let_def)
next
  case ne: False
  show ?thesis
  proof (cases "truthy_str (query req (js ''code'')) \<and> truthy_str (query req (js ''state''))")
    case False
    then have "\<not> (\<exists>code state. query req (js ''code'') = Some code \<and> code \<noteq> []
             \<and> query req (js ''state'') = Some state \<and> state \<noteq> [])"
      by (cases "query req (js ''code'')"; cases "query req (js ''state'')") auto
    moreover have "\<not> list_ex is_fetch (snd (snd (ms_callback w e req st)))"
      using False ne by (auto simp: ms_callback_def Let_def)
    ultimately show ?thesis by blast
  next
    case True
    then obtain code state where c: "query req (js ''code'') = Some code" "code \<noteq> []"
      and s: "query req (js ''state'') = Some state" "state \<noteq> []"
      by (cases "query req (js ''code'')"; cases "query req (js ''state'')") auto
    note r = ms_callback_reaches [OF ne c s, of w e st]
    show ?thesis
    proof (cases "ms_oauth_state st state")
      case None
      then show ?thesis using r ne c s by (simp add: ms_callback_try_missing)
    next
      case (Some userId)
      then show ?thesis using r ne c s
        by (simp add: ms_callback_try_found [OF Some] split: sum.splits)
    qed
  qed
qed

lemma ms_callback_without_fetch:
  assumes "\<not> list_ex is_fetch (snd (snd (ms_callback w e req st)))"
  shows "fst (snd (ms_callback w e req st)) = st
         \<and> (if truthy_str (query req (js ''error''))
             then status (fst (ms_callback w e req st)) = 200
                  \<and> (\<exists>m. body (fst (ms_callback w e req st)) = AuthorizationFailedPage m)
             else status (fst (ms_callback w e req st)) = 400
                  \<or> status (fst (ms_callback w e req st)) = 500)"
proof (cases "truthy_str (query req (js ''error''))")
  case True
  then show ?thesis by (simp add: ms_callback_def Let_def c_html_def)
next
  case ne: False
  show ?thesis
  proof (cases "truthy_str (query req (js ''code'')) \<and> truthy_str (query req (js ''state''))")
    case False
    then show ?thesis using ne by (auto simp: ms_callback_def Let_def c_text_def)
  next
    case True
    then obtain code state where c: "query req (js ''code'') = Some code" "code \<noteq> []"
      and s: "query req (js ''state'') = Some state" "state \<noteq> []"
      by (cases "query req (js ''code'')"; cases "query req (js ''state'')") auto
    have "ms_oauth_state st state = None"
      using assms ne c s by (auto simp: ms_callback_fetches)
    from ms_callback_unknown [OF ne c s this, of w e] ne show ?thesis
      by (simp add: c_html_def)
  qed
qed

text \<open>A token endpoint that answers with a status outside 200..299.\<close>

lemma ms_callback_quiet:
  "filter is_console_log (snd (snd (ms_callback w e req st))) = []"
  by (auto simp: ms_callback_def ms_callback_try_def exchangeCodeForToken_def
        getMicrosoftUserInfo_def Let_def split: option.splits sum.splits prod.splits)

lemma exchangeCodeForToken_rejected:
  assumes "fetch_token w (exchange_request e req code) = Inr r" and "\<not> ok r"
  shows "exchangeCodeForToken w e req code =
           (Inl (Exn Error (js ''Token exchange failed: '' @ fs_text r)),
            [FetchCall (exchange_request e req code)])"
  using assms by (simp add: exchangeCodeForToken_def Let_def)

lemma ms_callback_rejected:
  assumes "fetch_token w (exchange_request e req code) = Inr r" and "\<not> ok r"
    and "\<not> truthy_str (query req (js ''error''))"
    and "query req (js ''code'') = Some code" and "code \<noteq> []"
    and "query req (js ''state'') = Some state" and "state \<noteq> []"
    and "ms_oauth_state st state = Some userId"
  shows "ms_callback w e req st =
           (c_html (ErrorPage (js ''Token exchange failed: '' @ fs_text r)
                      (template_str (query req (js ''userId'')))) 500,
            st\<lparr>ms_oauth_state := (ms_oauth_state st)(state := None)\<rparr>,
            [KvGet (ms_oauth_state_key state), KvDelete (ms_oauth_state_key state),
             FetchCall (exchange_request e req code),
             ConsoleError [LStr (js ''Microsoft OAuth callback error:''),
                           LExn (Exn Error (js ''Token exchange failed: '' @ fs_text r))]])"
  using assms exchangeCodeForToken_rejected [OF assms(1,2)]
  by (simp add: ms_callback_def ms_callback_try_def)

lemma ex_down_response:
  "fetch_token ex_world_down rq =
     Inr \<lparr>fs_status = 400, fs_text = js ''invalid_grant'', fs_json = Inl (Exn SyntaxError [])\<rparr>"
  "fetch_token ex_world_unavailable rq =
     Inr \<lparr>fs_status = 503, fs_text = js ''invalid_grant'', fs_json = Inl (Exn SyntaxError [])\<rparr>"
  by (simp_all add: ex_world_down_def ex_world_unavailable_def)

text \<open>A refresh in the example world, with 100 seconds left.\<close>

lemma ex_refresh_response:
  "refreshMicrosoftToken (ex_world n) ex_env rt
     = (Inr (ex_token_response n), [FetchCall (refresh_request ex_env rt)])"
  by (simp add: refreshMicrosoftToken_def ex_world_def ok_def)

lemma ex_refresh_due:
  "js_gt (time_value (date_now (ex_world n) 0))
     (js_sub (ToNumber (expiresAt (ex_tokens 1100000))) (Fin 300000))"
  using time_value_int [of 1000000] js_sub_int [of 1100000 300000] js_gt_int [of 1000000 800000]
  by (simp add: ex_tokens_def ex_world_def)

lemma ex_refresh_ok:
  "getMicrosoftTokens (ex_world n) ex_env (js ''alice'') (ex_store 1100000) =
     (Some (view (refreshed (ex_world n) (ex_tokens 1100000) (ex_token_response n))),
      (ex_store 1100000)\<lparr>ms_tokens := (ms_tokens (ex_store 1100000))
         (js ''alice'' \<mapsto> stored (refreshed (ex_world n) (ex_tokens 1100000) (ex_token_response n)))\<rparr>,
      [KvGet (ms_tokens_key (js ''alice'')), FetchCall (refresh_request ex_env (js ''ref1'')),
       KvPut (ms_tokens_key (js ''alice''))
         (TokenData (stored (refreshed (ex_world n) (ex_tokens 1100000) (ex_token_response n))))
         TOKEN_TTL])"
proof -
  have k: "ms_tokens (ex_store 1100000) (js ''alice'') = Some (ex_tokens 1100000)"
    by (simp add: ex_store_def)
  have f: "refreshToken (ex_tokens 1100000) = Some (js ''ref1'')" "js ''ref1'' \<noteq> []"
    by (simp_all add: ex_tokens_def js_def)
  show ?thesis
    by (simp add: getMicrosoftTokens_def k f ex_refresh_due ex_refresh_response Let_def)
qed

text \<open>The callback in the world whose token response has no \<open>expires_in\<close>.\<close>

lemma ex_exchange_bare:
  "fst (exchangeCodeForToken ex_world_bare ex_env ex_req code) = Inr ex_bare_response"
  by (simp add: exchangeCodeForToken_def ex_world_bare_def ok_def Let_def)

lemma ex_user_bare:
  "fst (getMicrosoftUserInfo ex_world_bare token) = Inr ex_user"
  by (simp add: getMicrosoftUserInfo_def ex_world_bare_def ok_def Let_def)

lemma ex_callback_bare:
  "ms_callback ex_world_bare ex_env ex_req (ex_store t) =
     (c_html (SuccessPage (js ''Alice'') (js ''a@example.com'')) 200,
      (ex_store t)\<lparr>ms_oauth_state := (ms_oauth_state (ex_store t))(js ''nonce1'' := None),
                   ms_tokens := (ms_tokens (ex_store t))
                     (js ''alice'' \<mapsto> stored (new_token_data ex_world_bare ex_bare_response ex_user))\<rparr>,
      [KvGet (ms_oauth_state_key (js ''nonce1'')), KvDelete (ms_oauth_state_key (js ''nonce1'')),
       FetchCall (exchange_request ex_env ex_req (js ''validcode'')),
       FetchCall (user_info_request (js ''tok2'')),
       KvPut (ms_tokens_key (js ''alice''))
         (TokenData (stored (new_token_data ex_world_bare ex_bare_response ex_user))) TOKEN_TTL])"
proof -
  have m: "ms_email ex_user = js ''a@example.com''" "displayName ex_user = js ''Alice''"
    "access_token ex_bare_response = js ''tok2''"
    by (simp_all add: ms_email_def ex_user_def ex_bare_response_def js_def)
  show ?thesis
    unfolding ms_callback_reaches [of ex_req "js ''validcode''" "js ''nonce1''", OF _ ex_req_query(1) ex_nonempty(1) ex_req_query(2) ex_nonempty(2), simplified ex_req_query, simplified]
    by (simp add: ms_callback_try_found [OF ex_store_nonce] ex_exchange_bare ex_user_bare m)
qed

section \<open>The GitHub callback, step by step\<close>

text \<open>Decoding the state calls nothing, and the exchange is the first thing the rest of the
  handler does.\<close>

lemma direct_decode_quiet: "\<not> list_ex is_exchange (snd (direct_decode rd s))"
  by (simp add: direct_decode_def split: sum.splits)

lemma url_decode_quiet: "\<not> list_ex is_exchange (snd (url_decode rd s))"
  by (simp add: url_decode_def split: sum.splits)

lemma decode_state_quiet: "\<not> list_ex is_exchange (snd (decode_state rd s))"
  using direct_decode_quiet [of rd s] url_decode_quiet [of rd s]
  by (auto simp: decode_state_def split: prod.splits sum.splits)

lemma callback_exchange_calls:
  "\<exists>fx. snd (snd (callback_exchange w e req v st)) = UpstreamTokenCall (token_params e req) # fx
        \<and> \<not> list_ex is_exchange fx"
  by (auto simp: callback_exchange_def Let_def list_ex_iff split: sum.splits prod.splits)

text \<open>The ways \<open>GET /callback\<close> ends before the exchange, and how it goes on.\<close>

lemma callback_no_state:
  assumes "\<not> truthy_str (query req (js ''state''))"
  shows "callback w e req st =
           (c_text (js ''Missing state parameter'') 400, st,
            [LogError [GStr (js ''No state parameter found'')]])"
  using assms by (simp add: callback_def callback_try_def)

lemma callback_undecodable:
  assumes "query req (js ''state'') = Some s" and "s \<noteq> []"
    and "decode_state (read_number w) s = (Inl ex, fx)"
  shows "callback w e req st =
           (c_text (js ''State decoding failed: '' @ message ex) 400, st,
            Log [GStr (js ''State parameter received:''), GStr s] # fx)"
  using assms by (simp add: callback_def callback_try_def)

lemma callback_null:
  assumes "query req (js ''state'') = Some s" and "s \<noteq> []"
    and "decode_state (read_number w) s = (Inr JNull, fx)"
  shows "callback w e req st =
           (c_text (js ''Callback error: '' @ message (null_property_error ''clientId'')) 500, st,
            Log [GStr (js ''State parameter received:''), GStr s] # fx
              @ [LogError [GStr (js ''Unexpected error in callback:''),
                           GExn (null_property_error ''clientId'')]])"
  using assms by (simp add: callback_def callback_try_def)

lemma callback_no_clientId:
  assumes "query req (js ''state'') = Some s" and "s \<noteq> []"
    and "decode_state (read_number w) s = (Inr v, fx)"
    and "get_property v ''clientId'' = Inr cid" and "\<not> truthy (number_truthy w) cid"
  shows "callback w e req st =
           (c_text (js ''Invalid state - missing clientId'') 400, st,
            Log [GStr (js ''State parameter received:''), GStr s] # fx
              @ [LogError [GStr (js ''No clientId in decoded oauthReqInfo:''), GJson v]])"
  using assms by (simp add: callback_def callback_try_def)

lemma callback_decoded:
  assumes "query req (js ''state'') = Some s" and "s \<noteq> []"
    and "decode_state (read_number w) s = (Inr v, fx)"
    and "get_property v ''clientId'' = Inr cid" and "truthy (number_truthy w) cid"
  shows "callback w e req st =
           (case callback_exchange w e req v st of
              (Inr r, st', fx2) \<Rightarrow>
                (r, st',
                 Log [GStr (js ''State parameter received:''), GStr s] # fx
                   @ Log [GStr (js ''Successfully decoded oauthReqInfo:''), GJson v] # fx2)
            | (Inl error, st', fx2) \<Rightarrow>
                (c_text (js ''Callback error: '' @ message error) 500, st',
                 Log [GStr (js ''State parameter received:''), GStr s] # fx
                   @ Log [GStr (js ''Successfully decoded oauthReqInfo:''), GJson v] # fx2
                   @ [LogError [GStr (js ''Unexpected error in callback:''), GExn error]]))"
  using assms by (simp add: callback_def callback_try_def split: prod.splits sum.splits)

lemma get_property_cases:
  "get_property v k = Inl ex \<Longrightarrow> v = JNull"
  by (cases v) auto

lemma callback_exchange_filter:
  "filter is_exchange (snd (snd (callback_exchange w e req v st))) = [UpstreamTokenCall (token_params e req)]"
  by (auto simp: callback_exchange_def Let_def filter_empty_conv split: sum.splits prod.splits)

lemma filter_quiet: "\<not> list_ex is_exchange fx \<Longrightarrow> filter is_exchange fx = []"
  by (simp add: list_ex_iff filter_empty_conv)

text \<open>When the handler calls the exchange helper, and what it answers when it does not.\<close>

lemma callback_exchanges:
  "filter is_exchange (snd (snd (callback w e req st))) =
     (if \<exists>s v cid. query req (js ''state'') = Some s \<and> s \<noteq> []
            \<and> fst (decode_state (read_number w) s) = Inr v
            \<and> get_property v ''clientId'' = Inr cid \<and> truthy (number_truthy w) cid
      then [UpstreamTokenCall (token_params e req)] else [])"
proof (cases "truthy_str (query req (js ''state''))")
  case False
  then have "\<not> (\<exists>s. query req (js ''state'') = Some s \<and> s \<noteq> [])"
    by (cases "query req (js ''state'')") auto
  then show ?thesis using callback_no_state [OF False, of w e st] by simp
next
  case True
  then obtain s where s: "query req (js ''state'') = Some s" "s \<noteq> []"
    by (cases "query req (js ''state'')") auto
  obtain d fx where d: "decode_state (read_number w) s = (d, fx)"
    by (cases "decode_state (read_number w) s")
  with decode_state_quiet [of "read_number w" s] have q: "filter is_exchange fx = []"
    by (simp add: filter_quiet)
  show ?thesis
  proof (cases d)
    case (Inl ex)
    then show ?thesis using s d q callback_undecodable [OF s, of w ex fx e st] by simp
  next
    case (Inr v)
    note v = this
    show ?thesis
    proof (cases "get_property v ''clientId''")
      case (Inl ex)
      then have "v = JNull" by (rule get_property_cases)
      then show ?thesis using s d q v callback_null [OF s, of w fx e st] by simp
    next
      case (Inr cid)
      show ?thesis
      proof (cases "truthy (number_truthy w) cid")
        case False
        then show ?thesis
          using s d q v Inr callback_no_clientId [OF s, of w v fx cid e st] by simp
      next
        case True
        obtain r st' fx2 where x: "callback_exchange w e req v st = (r, st', fx2)"
          by (cases "callback_exchange w e req v st")
        with callback_exchange_filter [of w e req v st]
        have f2: "filter is_exchange fx2 = [UpstreamTokenCall (token_params e req)]" by simp
        have "filter is_exchange (snd (snd (callback w e req st))) = [UpstreamTokenCall (token_params e req)]"
          using s d v q f2 x callback_decoded [OF s, of w v fx cid e st] Inr True
          by (cases r) simp_all
        then show ?thesis using s d v Inr True by auto
      qed
    qed
  qed
qed

lemma callback_without_exchange:
  assumes "filter is_exchange (snd (snd (callback w e req st))) = []"
  shows "(status (fst (callback w e req st)) = 400 \<or> status (fst (callback w e req st)) = 500)
         \<and> fst (snd (callback w e req st)) = st"
proof (cases "truthy_str (query req (js ''state''))")
  case False
  then show ?thesis using callback_no_state [OF False, of w e st] by (simp add: c_text_def)
next
  case True
  then obtain s where s: "query req (js ''state'') = Some s" "s \<noteq> []"
    by (cases "query req (js ''state'')") auto
  obtain d fx where d: "decode_state (read_number w) s = (d, fx)"
    by (cases "decode_state (read_number w) s")
  show ?thesis
  proof (cases d)
    case (Inl ex)
    then show ?thesis using d callback_undecodable [OF s, of w ex fx e st] by (simp add: c_text_def)
  next
    case (Inr v)
    note v = this
    show ?thesis
    proof (cases "get_property v ''clientId''")
      case (Inl ex)
      then have "v = JNull" by (rule get_property_cases)
      then show ?thesis using d v callback_null [OF s, of w fx e st] by (simp add: c_text_def)
    next
      case (Inr cid)
      show ?thesis
      proof (cases "truthy (number_truthy w) cid")
        case False
        then show ?thesis
          using d v Inr callback_no_clientId [OF s, of w v fx cid e st] by (simp add: c_text_def)
      next
        case True
        then have "filter is_exchange (snd (snd (callback w e req st))) = [UpstreamTokenCall (token_params e req)]"
          using s d v Inr by (auto simp: callback_exchanges)
        with assms show ?thesis by simp
      qed
    qed
  qed
qed

text \<open>Decoding what \<open>redirectToGithub\<close> encoded.\<close>

lemma decode_state_encoded:
  assumes "json_ok pr rd r" and "latin1 (JSON_stringify pr r)"
  shows "encode_state pr r = Inr (b64_encode (map unat (JSON_stringify pr r)))"
    and "atob (b64_encode (map unat (JSON_stringify pr r))) = Inr (JSON_stringify pr r)"
    and "fst (decode_state rd (b64_encode (map unat (JSON_stringify pr r)))) = Inr r"
proof -
  let ?t = "JSON_stringify pr r"
  show e: "encode_state pr r = Inr (b64_encode (map unat ?t))"
    using assms(2) by (simp add: encode_state_def btoa_def latin1_def)
  then have b: "btoa ?t = Inr (b64_encode (map unat ?t))"
    by (simp add: encode_state_def)
  then show a: "atob (b64_encode (map unat ?t)) = Inr ?t"
    by (rule atob_btoa)
  have p: "JSON_parse rd ?t = Inr r"
    using assms(1) by (rule JSON_parse_stringify)
  show "fst (decode_state rd (b64_encode (map unat ?t))) = Inr r"
    by (simp add: decode_state_def direct_decode_def a p)
qed

text \<open>The concrete states, evaluated.\<close>

lemma ex_small_request_text:
  "JSON_stringify ex_print ex_small_request
     = js (''{'' @ [CHR 0x22] @ ''clientId'' @ [CHR 0x22] @ '':'' @ [CHR 0x22] @ ''abc123'' @ [CHR 0x22] @ ''}'')"
  by (simp add: ex_small_request_def QuoteJSONString_def quote_unit_def is_high_surrogate_def
        is_low_surrogate_def js_def)

lemma ex_state_encoded:
  "b64_encode (map unat (JSON_stringify ex_print ex_small_request)) = ex_state"
  unfolding ex_small_request_text by (simp add: ex_state_def js_def b64_digit_def)

lemma ex_state_decoded: "fst (decode_state ex_read ex_state) = Inr ex_small_request"
proof -
  have 1: "json_ok ex_print ex_read ex_small_request"
    by (simp add: ex_small_request_def js_object_def array_index_def is_digit_def js_def)
  have 2: "latin1 (JSON_stringify ex_print ex_small_request)"
    unfolding ex_small_request_text by (simp add: latin1_def js_def)
  from decode_state_encoded(3) [OF 1 2] show ?thesis
    by (simp only: ex_state_encoded)
qed

lemma atob_null: "atob (js ''bnVsbA=='') = Inr (js ''null'')"
  by (simp add: atob_def strip_padding_def is_ascii_whitespace_def b64_value_def js_def Let_def)

lemma JSON_parse_null: "JSON_parse rd (js ''null'') = Inr JNull"
  using JSON_parse_stringify [of "\<lambda>n. []" rd JNull] by simp

lemma decode_state_null:
  "decode_state rd (js ''bnVsbA=='') =
     (Inr JNull, [Log [GStr (js ''Base64 decoded state:''), GStr (js ''null'')]])"
  by (simp add: decode_state_def direct_decode_def atob_null JSON_parse_null)

text \<open>The exchange helper answers with an error response; the example requests.\<close>

lemma callback_rejected:
  assumes "query req (js ''state'') = Some s" and "s \<noteq> []"
    and "decode_state (read_number gw) s = (Inr v, fx)"
    and "get_property v ''clientId'' = Inr cid" and "truthy (number_truthy gw) cid"
    and "fetchUpstreamAuthToken gw (token_params e req) = Inr (Inl errResponse)"
  shows "callback gw e req st =
           (errResponse, st,
            Log [GStr (js ''State parameter received:''), GStr s] # fx
              @ [Log [GStr (js ''Successfully decoded oauthReqInfo:''), GJson v],
                 UpstreamTokenCall (token_params e req),
                 LogError [GStr (js ''Error fetching upstream auth token'')]])"
  using assms by (simp add: callback_def callback_try_def callback_exchange_def)

lemma ex_bare_req_query: "query ex_bare_req k = None"
  by (simp add: ex_bare_req_def)

lemma ex_error_req_query:
  "query ex_error_req (js ''code'') = Some (js ''validcode'')"
  "query ex_error_req (js ''error'') = Some (js ''access_denied'')"
  "query ex_error_req (js ''state'') = Some ex_state"
  by (simp_all add: ex_error_req_def js_def)

lemma ex_null_req_query: "query ex_null_req (js ''state'') = Some (js ''bnVsbA=='')"
  by (simp add: ex_null_req_def js_def)

lemma ex_state_decode:
  "decode_state ex_read ex_state =
     (Inr ex_small_request,
      [Log [GStr (js ''Base64 decoded state:''), GStr (JSON_stringify ex_print ex_small_request)]])"
proof -
  have 1: "json_ok ex_print ex_read ex_small_request"
    by (simp add: ex_small_request_def js_object_def array_index_def is_digit_def js_def)
  have 2: "latin1 (JSON_stringify ex_print ex_small_request)"
    unfolding ex_small_request_text by (simp add: latin1_def js_def)
  have a: "atob ex_state = Inr (JSON_stringify ex_print ex_small_request)"
    using decode_state_encoded(2) [OF 1 2] by (simp only: ex_state_encoded)
  have p: "JSON_parse ex_read (JSON_stringify ex_print ex_small_request) = Inr ex_small_request"
    using 1 by (rule JSON_parse_stringify)
  show ?thesis by (simp add: decode_state_def direct_decode_def a p)
qed

lemma ex_auth_request_ok: "json_ok ex_print ex_read ex_auth_request"
  by (simp add: ex_auth_request_def js_object_def array_index_def is_digit_def js_def)

lemma ex_auth_request_text:
  "JSON_stringify ex_print ex_auth_request =
     js (''{'' @ [CHR 0x22] @ ''responseType'' @ [CHR 0x22] @ '':'' @ [CHR 0x22] @ ''code'' @ [CHR 0x22]
         @ '','' @ [CHR 0x22] @ ''clientId'' @ [CHR 0x22] @ '':'' @ [CHR 0x22] @ ''abc123'' @ [CHR 0x22]
         @ '','' @ [CHR 0x22] @ ''redirectUri'' @ [CHR 0x22] @ '':'' @ [CHR 0x22]
         @ ''https://client.example/cb'' @ [CHR 0x22]
         @ '','' @ [CHR 0x22] @ ''scope'' @ [CHR 0x22] @ '':['' @ [CHR 0x22] @ ''read'' @ [CHR 0x22]
         @ '','' @ [CHR 0x22] @ ''write'' @ [CHR 0x22] @ '']''
         @ '','' @ [CHR 0x22] @ ''state'' @ [CHR 0x22] @ '':'' @ [CHR 0x22] @ ''xyz'' @ [CHR 0x22] @ ''}'')"
  by (simp add: ex_auth_request_def QuoteJSONString_def quote_unit_def is_high_surrogate_def
        is_low_surrogate_def js_def)

lemma ex_surrogate_request_ok: "json_ok ex_print ex_read ex_surrogate_request"
  by (simp add: ex_surrogate_request_def js_object_def array_index_def is_digit_def js_def)

lemma ex_surrogate_request_text:
  "JSON_stringify ex_print ex_surrogate_request =
     js (''{'' @ [CHR 0x22] @ ''clientId'' @ [CHR 0x22] @ '':'' @ [CHR 0x22]) @ [0x5C]
       @ js (''ud800'' @ [CHR 0x22] @ ''}'')"
  by (simp add: ex_surrogate_request_def QuoteJSONString_def quote_unit_def is_high_surrogate_def
        is_low_surrogate_def unicode_escape_def hex_digit_def js_def)

lemma ex_euro_request_text:
  "JSON_stringify ex_print ex_euro_request =
     js (''{'' @ [CHR 0x22] @ ''clientId'' @ [CHR 0x22] @ '':'' @ [CHR 0x22]) @ [0x20AC]
       @ js ([CHR 0x22] @ ''}'')"
  by (simp add: ex_euro_request_def QuoteJSONString_def quote_unit_def is_high_surrogate_def
        is_low_surrogate_def js_def)

section \<open>The token cache\<close>

text \<open>
  C5. A stored token record whose \<open>expiresAt\<close>, \<open>x\<close>, is more than five minutes
  (300000 ms) after the current time is returned by \<open>getMicrosoftTokens\<close> with its access
  token, refresh token and expiry unchanged; no refresh call is made, nothing is written
  and the store is left as it was. The subtraction and the comparison of the code are those
  of Numbers; rounding keeps the order, so the exact comparison decides.
\<close>

theorem getMicrosoftTokens_fresh:
  assumes "ms_tokens st userId = Some tokens"
    and "ToNumber (expiresAt tokens) = Fin x"
    and "x > of_int (date_now w 0) + 300000"
  shows "getMicrosoftTokens w e userId st =
           (Some \<lparr>tv_accessToken = accessToken tokens, tv_refreshToken = refreshToken tokens,
                   tv_expiresAt = expiresAt tokens\<rparr>,
            st, [KvGet (ms_tokens_key userId)])
         \<and> filter is_fetch (snd (snd (getMicrosoftTokens w e userId st))) = []
         \<and> filter is_put (snd (snd (getMicrosoftTokens w e userId st))) = []"
proof -
  have "\<not> js_gt (time_value (date_now w 0)) (js_sub (ToNumber (expiresAt tokens)) (Fin 300000))"
    unfolding assms(2) using assms(3) by (intro not_due) simp
  with assms(1) show ?thesis by (simp add: getMicrosoftTokens_def view_def)
qed

theorem getMicrosoftTokens_fresh_witness:
  "ms_tokens (ex_store 2000000) (js ''alice'') = Some (ex_tokens 2000000)
   \<and> ToNumber (expiresAt (ex_tokens 2000000)) = Fin 2000000
   \<and> (2000000 :: rat) > of_int (date_now (ex_world 3600) 0) + 300000
   \<and> getMicrosoftTokens (ex_world 3600) ex_env (js ''alice'') (ex_store 2000000) =
       (Some \<lparr>tv_accessToken = js ''tok1'', tv_refreshToken = Some (js ''ref1''),
               tv_expiresAt = Number (Fin 2000000)\<rparr>,
        ex_store 2000000, [KvGet (ms_tokens_key (js ''alice''))])"
proof -
  have h1: "ms_tokens (ex_store 2000000) (js ''alice'') = Some (ex_tokens 2000000)"
    by (simp add: ex_store_def)
  have h2: "ToNumber (expiresAt (ex_tokens 2000000)) = Fin 2000000"
    by (simp add: ex_tokens_def)
  have h3: "(2000000 :: rat) > of_int (date_now (ex_world 3600) 0) + 300000"
    by (simp add: ex_world_def)
  from getMicrosoftTokens_fresh [OF h1 h2 h3, of ex_env] h1 h2 h3 show ?thesis
    by (simp add: ex_tokens_def)
qed

text \<open>
  C6, as the code has it. When the stored record has a non-empty refresh token, the test
  \<open>Date.now() > tokens.expiresAt - 300000\<close> succeeds (on safe integers: less than five
  minutes are left; with exactly five minutes left the record is returned as it is)
  and the refresh call succeeds, \<open>getMicrosoftTokens\<close> makes exactly one refresh call,
  writes the updated record, in which the prior refresh token is kept when the response has
  none (or an empty one), and returns it. Its \<open>expiresAt\<close> is
  \<open>Date.now() + expires_in * 1000\<close>, computed on Numbers with the time read after the
  call and whatever \<open>expires_in\<close> the response has. When \<open>expires_in\<close> is a whole number
  \<open>n\<close> of at least 300 seconds, the clock has not gone back and the sum is a safe
  integer, that is exactly the time plus \<open>n * 1000\<close>, and it is later than the stored
  expiry.
\<close>

theorem getMicrosoftTokens_refresh:
  assumes "ms_tokens st userId = Some tokens"
    and "refreshToken tokens = Some rt" and "rt \<noteq> []"
    and "js_gt (time_value (date_now w 0)) (js_sub (ToNumber (expiresAt tokens)) (Fin 300000))"
    and "fst (refreshMicrosoftToken w e rt) = Inr newTokens"
  shows "getMicrosoftTokens w e userId st =
           (Some (view (refreshed w tokens newTokens)),
            st\<lparr>ms_tokens := (ms_tokens st)(userId \<mapsto> stored (refreshed w tokens newTokens))\<rparr>,
            [KvGet (ms_tokens_key userId), FetchCall (refresh_request e rt),
             KvPut (ms_tokens_key userId) (TokenData (stored (refreshed w tokens newTokens))) TOKEN_TTL])
         \<and> length (filter is_fetch (snd (snd (getMicrosoftTokens w e userId st)))) = 1
         \<and> accessToken (refreshed w tokens newTokens) = access_token newTokens
         \<and> refreshToken (refreshed w tokens newTokens) =
               (case refresh_token newTokens of
                  None \<Rightarrow> Some rt
                | Some new \<Rightarrow> if new = [] then Some rt else Some new)
         \<and> expiresAt (refreshed w tokens newTokens) =
               Number (js_add (time_value (date_now w 1))
                         (js_mul (ToNumber (expires_in newTokens)) (Fin 1000)))
         \<and> (ToNumber (expiresAt tokens) = Fin x
              \<and> ToNumber (expires_in newTokens) = Fin (of_int n) \<and> 300 \<le> n
              \<and> 0 \<le> date_now w 0 \<and> date_now w 0 \<le> date_now w 1
              \<and> safe_integer (date_now w 1 + n * 1000)
              \<longrightarrow> tv_expiresAt (view (refreshed w tokens newTokens))
                    = Number (Fin (of_int (date_now w 1 + n * 1000)))
                  \<and> expiresAt (stored (refreshed w tokens newTokens))
                    = Number (Fin (of_int (date_now w 1 + n * 1000)))
                  \<and> x < of_int (date_now w 1 + n * 1000))
         \<and> (safe_integer t \<and> safe_integer (a - 300000)
              \<longrightarrow> (js_gt (time_value t) (js_sub (Fin (of_int a)) (Fin 300000))
                     \<longleftrightarrow> a < t + 300000))"
proof -
  obtain fx where r: "refreshMicrosoftToken w e rt = (Inr newTokens, fx)"
    using assms(5) by (cases "refreshMicrosoftToken w e rt") auto
  with refreshMicrosoftToken_trace [of w e rt] have fx: "fx = [FetchCall (refresh_request e rt)]" by simp
  have 1: "getMicrosoftTokens w e userId st =
           (Some (view (refreshed w tokens newTokens)),
            st\<lparr>ms_tokens := (ms_tokens st)(userId \<mapsto> stored (refreshed w tokens newTokens))\<rparr>,
            [KvGet (ms_tokens_key userId), FetchCall (refresh_request e rt),
             KvPut (ms_tokens_key userId) (TokenData (stored (refreshed w tokens newTokens))) TOKEN_TTL])"
    using assms(1-4) r fx by (simp add: getMicrosoftTokens_def Let_def)
  have 2: "refreshToken (refreshed w tokens newTokens) =
               (case refresh_token newTokens of
                  None \<Rightarrow> Some rt
                | Some new \<Rightarrow> if new = [] then Some rt else Some new)"
    using assms(2) by (simp add: refreshed_def split: option.splits)
  have 3: "expiresAt (refreshed w tokens newTokens) =
               Number (js_add (time_value (date_now w 1))
                         (js_mul (ToNumber (expires_in newTokens)) (Fin 1000)))"
    by (simp add: refreshed_def)
  have 4: "tv_expiresAt (view (refreshed w tokens newTokens))
                    = Number (Fin (of_int (date_now w 1 + n * 1000)))
           \<and> expiresAt (stored (refreshed w tokens newTokens))
                    = Number (Fin (of_int (date_now w 1 + n * 1000)))
           \<and> x < of_int (date_now w 1 + n * 1000)"
    if h: "ToNumber (expiresAt tokens) = Fin x" "ToNumber (expires_in newTokens) = Fin (of_int n)"
      "300 \<le> n" "0 \<le> date_now w 0" "date_now w 0 \<le> date_now w 1"
      "safe_integer (date_now w 1 + n * 1000)"
  proof -
    have s: "\<bar>date_now w 1\<bar> < 2 ^ 53" "\<bar>n * 1000\<bar> < 2 ^ 53" "\<bar>date_now w 1 + n * 1000\<bar> < 2 ^ 53"
      using h(3-6) by (simp_all add: safe_integer_def)
    have e: "expiresAt (refreshed w tokens newTokens) = Number (Fin (of_int (date_now w 1 + n * 1000)))"
      unfolding 3
      by (simp only: h(2) time_value_int [OF s(1)] js_mul_int [OF s(2)] js_add_int [OF s(3)])
    have "\<not> of_int (date_now w 0) + 300000 \<le> x"
      using assms(4) not_due [of "date_now w 0" x] unfolding h(1) by blast
    then have "x < of_int (date_now w 0 + 300000)" by simp
    also have "(of_int (date_now w 0 + 300000) :: rat) \<le> of_int (date_now w 1 + n * 1000)"
      using h(3,5) by (simp only: of_int_le_iff)
    finally have "x < of_int (date_now w 1 + n * 1000)" .
    with e show ?thesis by (simp add: view_def stored_def)
  qed
  have 5: "js_gt (time_value t) (js_sub (Fin (of_int a)) (Fin 300000)) \<longleftrightarrow> a < t + 300000"
    if "safe_integer t" "safe_integer (a - 300000)"
    using that by (rule refresh_due_int)
  show ?thesis
    unfolding 1 using 2 3 4 5 by (simp add: refreshed_def)
qed

theorem getMicrosoftTokens_refresh_witness:
  "getMicrosoftTokens (ex_world 3600) ex_env (js ''alice'') (ex_store 1100000) =
     (Some \<lparr>tv_accessToken = js ''tok2'', tv_refreshToken = Some (js ''ref1''),
             tv_expiresAt = Number (Fin 4600001)\<rparr>,
      (ex_store 1100000)\<lparr>ms_tokens := (ms_tokens (ex_store 1100000))
         (js ''alice'' \<mapsto> (ex_tokens 4600001)\<lparr>accessToken := js ''tok2''\<rparr>)\<rparr>,
      [KvGet (ms_tokens_key (js ''alice'')), FetchCall (refresh_request ex_env (js ''ref1'')),
       KvPut (ms_tokens_key (js ''alice''))
         (TokenData ((ex_tokens 4600001)\<lparr>accessToken := js ''tok2''\<rparr>)) TOKEN_TTL])
   \<and> ToNumber (expiresAt (ex_tokens 1100000)) = Fin 1100000
   \<and> (1100000 :: rat) < 4600001
   \<and> safe_integer 1000000 \<and> safe_integer (1100000 - 300000)
   \<and> js_gt (time_value 1000000) (js_sub (Fin 1100000) (Fin 300000))"
proof -
  have h1: "ms_tokens (ex_store 1100000) (js ''alice'') = Some (ex_tokens 1100000)"
    by (simp add: ex_store_def)
  have h2: "refreshToken (ex_tokens 1100000) = Some (js ''ref1'')"
    by (simp add: ex_tokens_def)
  have h3: "js ''ref1'' \<noteq> []" by (simp add: js_def)
  have h4: "js_gt (time_value (date_now (ex_world 3600) 0))
              (js_sub (ToNumber (expiresAt (ex_tokens 1100000))) (Fin 300000))"
    using time_value_int [of 1000000] js_sub_int [of 1100000 300000] js_gt_int [of 1000000 800000]
    by (simp add: ex_tokens_def ex_world_def)
  have h5: "fst (refreshMicrosoftToken (ex_world 3600) ex_env (js ''ref1'')) = Inr (ex_token_response 3600)"
    by (simp add: refreshMicrosoftToken_def ex_world_def ok_def)
  have x: "ToNumber (expiresAt (ex_tokens 1100000)) = Fin 1100000"
    by (simp add: ex_tokens_def)
  have n: "ToNumber (expires_in (ex_token_response 3600)) = Fin (of_int 3600)"
    by (simp add: ex_token_response_def)
  have c: "0 \<le> date_now (ex_world 3600) 0" "date_now (ex_world 3600) 0 \<le> date_now (ex_world 3600) 1"
    "safe_integer (date_now (ex_world 3600) 1 + 3600 * 1000)" "date_now (ex_world 3600) 1 = 1000001"
    by (simp_all add: ex_world_def safe_integer_def)
  have s: "safe_integer 1000000" "safe_integer (1100000 - 300000)"
    by (simp_all add: safe_integer_def)
  from getMicrosoftTokens_refresh
         [OF h1 h2 h3 h4 h5, where x = 1100000 and n = 3600 and t = 1000000 and a = 1100000] x n c s
  show ?thesis
    by (simp add: view_def stored_def refreshed_def ex_tokens_def ex_token_response_def)
qed

text \<open>
  C6 as stated fails: with 200 seconds left and a response whose \<open>expires_in\<close> is 60, the
  record returned expires before the stored one did.
\<close>

theorem getMicrosoftTokens_refresh_counterexample:
  "ms_tokens (ex_store 1200000) (js ''alice'') = Some (ex_tokens 1200000)
   \<and> refreshToken (ex_tokens 1200000) = Some (js ''ref1'')
   \<and> expiresAt (ex_tokens 1200000) = Number (Fin 1200000)
   \<and> time_value (date_now (ex_world 60) 0) = Fin 1000000
   \<and> js_gt (time_value (date_now (ex_world 60) 0))
        (js_sub (ToNumber (expiresAt (ex_tokens 1200000))) (Fin 300000))
   \<and> fst (refreshMicrosoftToken (ex_world 60) ex_env (js ''ref1'')) = Inr (ex_token_response 60)
   \<and> expires_in (ex_token_response 60) = Number (Fin 60)
   \<and> map_option tv_expiresAt (fst (getMicrosoftTokens (ex_world 60) ex_env (js ''alice'') (ex_store 1200000)))
       = Some (Number (Fin 1060001))
   \<and> \<not> js_gt (Fin 1060001) (Fin 1200000)"
proof -
  have t: "time_value (date_now (ex_world 60) 0) = Fin 1000000"
    "time_value (date_now (ex_world 60) (Suc 0)) = Fin 1000001"
    using time_value_int [of 1000000] time_value_int [of 1000001] by (simp_all add: ex_world_def)
  have d: "js_sub (Fin 1200000) (Fin 300000) = Fin 900000"
    using js_sub_int [of 1200000 300000] by simp
  have m: "js_mul (Fin 60) (Fin 1000) = Fin 60000"
    using js_mul_int [of 60] by simp
  have a: "js_add (Fin 1000001) (Fin 60000) = Fin 1060001"
    using js_add_int [of 1000001 60000] by simp
  have g: "js_gt (Fin 1000000) (Fin 900000)" "\<not> js_gt (Fin 1060001) (Fin 1200000)"
    by (simp_all add: js_gt_Fin)
  have r: "refreshMicrosoftToken (ex_world 60) ex_env (js ''ref1'')
             = (Inr (ex_token_response 60), [FetchCall (refresh_request ex_env (js ''ref1''))])"
    by (simp add: refreshMicrosoftToken_def ex_world_def ok_def)
  have k: "ms_tokens (ex_store 1200000) (js ''alice'') = Some (ex_tokens 1200000)"
    by (simp add: ex_store_def)
  have f: "refreshToken (ex_tokens 1200000) = Some (js ''ref1'')"
    "expiresAt (ex_tokens 1200000) = Number (Fin 1200000)"
    "expires_in (ex_token_response 60) = Number (Fin 60)" "js ''ref1'' \<noteq> []"
    "refresh_token (ex_token_response 60) = None"
    by (simp_all add: ex_tokens_def ex_token_response_def js_def)
  have "map_option tv_expiresAt (fst (getMicrosoftTokens (ex_world 60) ex_env (js ''alice'') (ex_store 1200000)))
       = Some (Number (Fin 1060001))"
    by (simp add: getMicrosoftTokens_def k f t d m a g r refreshed_def view_def Let_def)
  with t d g r k f show ?thesis by simp
qed

text \<open>
  C7. When the refresh call made by \<open>getMicrosoftTokens\<close> fails (\<open>fetch\<close> rejects, the
  status is not a success, or the body is not JSON), the exception is logged with
  \<open>console.error\<close> and goes no further: the stored record is returned with its fields
  unchanged, the store is left as it was and nothing is written. The call is made when the
  record has a non-empty refresh token and the test \<open>Date.now() > tokens.expiresAt - 300000\<close>
  succeeds.
\<close>

theorem getMicrosoftTokens_refresh_fails:
  assumes "ms_tokens st userId = Some tokens"
    and "refreshToken tokens = Some rt" and "rt \<noteq> []"
    and "js_gt (time_value (date_now w 0)) (js_sub (ToNumber (expiresAt tokens)) (Fin 300000))"
    and "fst (refreshMicrosoftToken w e rt) = Inl ex"
  shows "getMicrosoftTokens w e userId st =
           (Some \<lparr>tv_accessToken = accessToken tokens, tv_refreshToken = refreshToken tokens,
                   tv_expiresAt = expiresAt tokens\<rparr>,
            st,
            [KvGet (ms_tokens_key userId), FetchCall (refresh_request e rt),
             ConsoleError [LStr (js ''Failed to refresh Microsoft token:''), LExn ex]])
         \<and> filter is_put (snd (snd (getMicrosoftTokens w e userId st))) = []"
proof -
  obtain fx where r: "refreshMicrosoftToken w e rt = (Inl ex, fx)"
    using assms(5) by (cases "refreshMicrosoftToken w e rt") auto
  with refreshMicrosoftToken_trace [of w e rt] have fx: "fx = [FetchCall (refresh_request e rt)]" by simp
  show ?thesis
    using assms(1-4) r fx by (simp add: getMicrosoftTokens_def view_def)
qed

theorem getMicrosoftTokens_refresh_fails_witness:
  "getMicrosoftTokens ex_world_down ex_env (js ''alice'') (ex_store 1100000) =
     (Some \<lparr>tv_accessToken = js ''tok1'', tv_refreshToken = Some (js ''ref1''),
             tv_expiresAt = Number (Fin 1100000)\<rparr>,
      ex_store 1100000,
      [KvGet (ms_tokens_key (js ''alice'')), FetchCall (refresh_request ex_env (js ''ref1'')),
       ConsoleError [LStr (js ''Failed to refresh Microsoft token:''),
                     LExn (Exn Error (js ''Token refresh failed: invalid_grant''))]])"
proof -
  have h1: "ms_tokens (ex_store 1100000) (js ''alice'') = Some (ex_tokens 1100000)"
    by (simp add: ex_store_def)
  have h2: "refreshToken (ex_tokens 1100000) = Some (js ''ref1'')"
    by (simp add: ex_tokens_def)
  have h3: "js ''ref1'' \<noteq> []" by (simp add: js_def)
  have h4: "js_gt (time_value (date_now ex_world_down 0))
              (js_sub (ToNumber (expiresAt (ex_tokens 1100000))) (Fin 300000))"
    using time_value_int [of 1000000] js_sub_int [of 1100000 300000] js_gt_int [of 1000000 800000]
    by (simp add: ex_tokens_def ex_world_down_def)
  have h5: "fst (refreshMicrosoftToken ex_world_down ex_env (js ''ref1''))
              = Inl (Exn Error (js ''Token refresh failed: invalid_grant''))"
    by (simp add: refreshMicrosoftToken_def ex_world_down_def ok_def js_def)
  from getMicrosoftTokens_refresh_fails [OF h1 h2 h3 h4 h5] show ?thesis
    by (simp add: ex_tokens_def)
qed

section \<open>The Microsoft callback\<close>

text \<open>
  C8, as the code has it. Every token record written, by the callback after an exchange or
  by \<open>getMicrosoftTokens\<close> after a refresh, has as \<open>expiresAt\<close> the Number
  \<open>Date.now() + expires_in * 1000\<close>, computed from the time read just before the write
  and whatever \<open>expires_in\<close> the response has, as \<open>JSON.stringify\<close> writes it
  (\<open>null\<close> when the response has no \<open>expires_in\<close>). When
  \<open>expires_in\<close> is a whole number \<open>n\<close> and the time, \<open>n * 1000\<close> and their sum are safe
  integers, that is exactly the time plus \<open>n * 1000\<close> ms (3600 gives the time plus
  3600000 ms), and it is later than the time exactly when \<open>n\<close> is positive, which the
  code does not check.
\<close>

theorem persisted_expiry:
  "(KvPut k (TokenData td) ttl \<in> set (snd (snd (ms_callback w e req st))) \<longrightarrow>
      (\<exists>code tr. query req (js ''code'') = Some code
          \<and> fst (exchangeCodeForToken w e req code) = Inr tr
          \<and> expiresAt td =
               json_numeric (Number (js_add (time_value (date_now w 0))
                                       (js_mul (ToNumber (expires_in tr)) (Fin 1000))))
          \<and> (\<forall>n. ToNumber (expires_in tr) = Fin (of_int n) \<and> safe_integer (date_now w 0)
                   \<and> safe_integer (n * 1000) \<and> safe_integer (date_now w 0 + n * 1000)
                \<longrightarrow> expiresAt td = Number (Fin (of_int (date_now w 0 + n * 1000)))
                    \<and> (js_gt (ToNumber (expiresAt td)) (time_value (date_now w 0)) \<longleftrightarrow> 0 < n))
          \<and> (expires_in tr = Undefined \<longrightarrow> expiresAt td = Null)))
   \<and> (KvPut k (TokenData td) ttl \<in> set (snd (snd (getMicrosoftTokens w e userId st))) \<longrightarrow>
      (\<exists>tokens rt tr. ms_tokens st userId = Some tokens \<and> refreshToken tokens = Some rt
          \<and> fst (refreshMicrosoftToken w e rt) = Inr tr
          \<and> expiresAt td =
               json_numeric (Number (js_add (time_value (date_now w 1))
                                       (js_mul (ToNumber (expires_in tr)) (Fin 1000))))
          \<and> (\<forall>n. ToNumber (expires_in tr) = Fin (of_int n) \<and> safe_integer (date_now w 1)
                   \<and> safe_integer (n * 1000) \<and> safe_integer (date_now w 1 + n * 1000)
                \<longrightarrow> expiresAt td = Number (Fin (of_int (date_now w 1 + n * 1000)))
                    \<and> (js_gt (ToNumber (expiresAt td)) (time_value (date_now w 1)) \<longleftrightarrow> 0 < n))
          \<and> (expires_in tr = Undefined \<longrightarrow> expiresAt td = Null)))"
proof (intro conjI impI)
  assume "KvPut k (TokenData td) ttl \<in> set (snd (snd (ms_callback w e req st)))"
  from ms_callback_put [OF this] obtain code tr u
    where c: "query req (js ''code'') = Some code" "fst (exchangeCodeForToken w e req code) = Inr tr"
      "td = stored (new_token_data w tr u)"
    by auto
  have x: "expiresAt td =
               json_numeric (Number (js_add (time_value (date_now w 0))
                                       (js_mul (ToNumber (expires_in tr)) (Fin 1000))))"
    unfolding c(3) by (simp add: stored_def new_token_data_def)
  from c(1,2) x expiry_written [OF x, THEN conjunct1] expiry_written [OF x, THEN conjunct2]
  show "\<exists>code tr. query req (js ''code'') = Some code
          \<and> fst (exchangeCodeForToken w e req code) = Inr tr
          \<and> expiresAt td =
               json_numeric (Number (js_add (time_value (date_now w 0))
                                       (js_mul (ToNumber (expires_in tr)) (Fin 1000))))
          \<and> (\<forall>n. ToNumber (expires_in tr) = Fin (of_int n) \<and> safe_integer (date_now w 0)
                   \<and> safe_integer (n * 1000) \<and> safe_integer (date_now w 0 + n * 1000)
                \<longrightarrow> expiresAt td = Number (Fin (of_int (date_now w 0 + n * 1000)))
                    \<and> (js_gt (ToNumber (expiresAt td)) (time_value (date_now w 0)) \<longleftrightarrow> 0 < n))
          \<and> (expires_in tr = Undefined \<longrightarrow> expiresAt td = Null)"
    by (intro exI conjI)
next
  assume "KvPut k (TokenData td) ttl \<in> set (snd (snd (getMicrosoftTokens w e userId st)))"
  from getMicrosoftTokens_put [OF this] obtain tokens rt tr
    where c: "ms_tokens st userId = Some tokens" "refreshToken tokens = Some rt"
      "fst (refreshMicrosoftToken w e rt) = Inr tr" "td = stored (refreshed w tokens tr)"
    by auto
  have x: "expiresAt td =
               json_numeric (Number (js_add (time_value (date_now w 1))
                                       (js_mul (ToNumber (expires_in tr)) (Fin 1000))))"
    unfolding c(4) by (simp add: stored_def refreshed_def)
  from c(1-3) x expiry_written [OF x, THEN conjunct1] expiry_written [OF x, THEN conjunct2]
  show "\<exists>tokens rt tr. ms_tokens st userId = Some tokens \<and> refreshToken tokens = Some rt
          \<and> fst (refreshMicrosoftToken w e rt) = Inr tr
          \<and> expiresAt td =
               json_numeric (Number (js_add (time_value (date_now w 1))
                                       (js_mul (ToNumber (expires_in tr)) (Fin 1000))))
          \<and> (\<forall>n. ToNumber (expires_in tr) = Fin (of_int n) \<and> safe_integer (date_now w 1)
                   \<and> safe_integer (n * 1000) \<and> safe_integer (date_now w 1 + n * 1000)
                \<longrightarrow> expiresAt td = Number (Fin (of_int (date_now w 1 + n * 1000)))
                    \<and> (js_gt (ToNumber (expiresAt td)) (time_value (date_now w 1)) \<longleftrightarrow> 0 < n))
          \<and> (expires_in tr = Undefined \<longrightarrow> expiresAt td = Null)"
    by (intro exI conjI)
qed

theorem persisted_expiry_witness:
  "KvPut (ms_tokens_key (js ''alice''))
        (TokenData (stored (new_token_data (ex_world 3600) (ex_token_response 3600) ex_user))) TOKEN_TTL
        \<in> set (snd (snd (ms_callback (ex_world 3600) ex_env ex_req (ex_store 0))))
   \<and> ToNumber (expires_in (ex_token_response 3600)) = Fin (of_int 3600)
   \<and> safe_integer (date_now (ex_world 3600) 0) \<and> safe_integer (3600 * 1000)
   \<and> safe_integer (date_now (ex_world 3600) 0 + 3600 * 1000)
   \<and> expiresAt (stored (new_token_data (ex_world 3600) (ex_token_response 3600) ex_user))
        = Number (Fin (1000000 + 3600000))
   \<and> js_gt (ToNumber (expiresAt (stored (new_token_data (ex_world 3600) (ex_token_response 3600) ex_user))))
        (time_value (date_now (ex_world 3600) 0))
   \<and> KvPut (ms_tokens_key (js ''alice''))
        (TokenData (stored (refreshed (ex_world 3600) (ex_tokens 1100000) (ex_token_response 3600))))
        TOKEN_TTL
        \<in> set (snd (snd (getMicrosoftTokens (ex_world 3600) ex_env (js ''alice'') (ex_store 1100000))))
   \<and> safe_integer (date_now (ex_world 3600) 1)
   \<and> safe_integer (date_now (ex_world 3600) 1 + 3600 * 1000)
   \<and> expiresAt (stored (refreshed (ex_world 3600) (ex_tokens 1100000) (ex_token_response 3600)))
        = Number (Fin (1000001 + 3600000))
   \<and> KvPut (ms_tokens_key (js ''alice''))
        (TokenData (stored (new_token_data ex_world_bare ex_bare_response ex_user))) TOKEN_TTL
        \<in> set (snd (snd (ms_callback ex_world_bare ex_env ex_req (ex_store 0))))
   \<and> expires_in ex_bare_response = Undefined
   \<and> expiresAt (stored (new_token_data ex_world_bare ex_bare_response ex_user)) = Null"
proof -
  let ?td = "stored (new_token_data (ex_world 3600) (ex_token_response 3600) ex_user)"
  let ?tr = "stored (refreshed (ex_world 3600) (ex_tokens 1100000) (ex_token_response 3600))"
  let ?tb = "stored (new_token_data ex_world_bare ex_bare_response ex_user)"
  have put: "KvPut (ms_tokens_key (js ''alice'')) (TokenData ?td) TOKEN_TTL
        \<in> set (snd (snd (ms_callback (ex_world 3600) ex_env ex_req (ex_store 0))))"
    by (simp add: ex_callback_ok)
  have h: "ToNumber (expires_in (ex_token_response 3600)) = Fin (of_int 3600)"
    "safe_integer (date_now (ex_world 3600) 0)" "safe_integer (3600 * 1000)"
    "safe_integer (date_now (ex_world 3600) 0 + 3600 * 1000)"
    by (simp_all add: ex_token_response_def ex_world_def safe_integer_def)
  note p = persisted_expiry
         [of "ms_tokens_key (js ''alice'')" ?td TOKEN_TTL "ex_world 3600" ex_env ex_req "ex_store 0",
          THEN conjunct1, THEN mp, OF put]
  from p obtain code tr
    where a: "fst (exchangeCodeForToken (ex_world 3600) ex_env ex_req code) = Inr tr"
      and b: "\<forall>n. ToNumber (expires_in tr) = Fin (of_int n)
             \<and> safe_integer (date_now (ex_world 3600) 0)
             \<and> safe_integer (n * 1000) \<and> safe_integer (date_now (ex_world 3600) 0 + n * 1000)
          \<longrightarrow> expiresAt ?td = Number (Fin (of_int (date_now (ex_world 3600) 0 + n * 1000)))
              \<and> (js_gt (ToNumber (expiresAt ?td)) (time_value (date_now (ex_world 3600) 0)) \<longleftrightarrow> 0 < n)"
    by blast
  from a have tr: "tr = ex_token_response 3600" by (simp add: ex_exchange_ok)
  note q = b [unfolded tr, rule_format, of 3600, OF conjI [OF h(1) conjI [OF h(2) conjI [OF h(3) h(4)]]]]
  from q [THEN conjunct1]
  have e: "expiresAt ?td = Number (Fin (1000000 + 3600000))" by (simp add: ex_world_def)
  from q [THEN conjunct2]
  have g: "js_gt (ToNumber (expiresAt ?td)) (time_value (date_now (ex_world 3600) 0))" by simp
  have put': "KvPut (ms_tokens_key (js ''alice'')) (TokenData ?tr) TOKEN_TTL
        \<in> set (snd (snd (getMicrosoftTokens (ex_world 3600) ex_env (js ''alice'') (ex_store 1100000))))"
    by (simp add: ex_refresh_ok)
  have h': "safe_integer (date_now (ex_world 3600) 1)"
    "safe_integer (date_now (ex_world 3600) 1 + 3600 * 1000)"
    by (simp_all add: ex_world_def safe_integer_def)
  note p' = persisted_expiry
         [where k = "ms_tokens_key (js ''alice'')" and td = ?tr and ttl = TOKEN_TTL
            and w = "ex_world 3600" and e = ex_env and userId = "js ''alice''"
            and st = "ex_store 1100000",
          THEN conjunct2, THEN mp, OF put']
  from p' obtain rt tr'
    where a': "fst (refreshMicrosoftToken (ex_world 3600) ex_env rt) = Inr tr'"
      and b': "\<forall>n. ToNumber (expires_in tr') = Fin (of_int n)
             \<and> safe_integer (date_now (ex_world 3600) 1)
             \<and> safe_integer (n * 1000) \<and> safe_integer (date_now (ex_world 3600) 1 + n * 1000)
          \<longrightarrow> expiresAt ?tr = Number (Fin (of_int (date_now (ex_world 3600) 1 + n * 1000)))
              \<and> (js_gt (ToNumber (expiresAt ?tr)) (time_value (date_now (ex_world 3600) 1)) \<longleftrightarrow> 0 < n)"
    by blast
  from a' have tr': "tr' = ex_token_response 3600" by (simp add: ex_refresh_response)
  note q' = b' [unfolded tr', rule_format, of 3600, OF conjI [OF h(1) conjI [OF h'(1) conjI [OF h(3) h'(2)]]]]
  from q' [THEN conjunct1]
  have e': "expiresAt ?tr = Number (Fin (1000001 + 3600000))" by (simp add: ex_world_def)
  have put'': "KvPut (ms_tokens_key (js ''alice'')) (TokenData ?tb) TOKEN_TTL
        \<in> set (snd (snd (ms_callback ex_world_bare ex_env ex_req (ex_store 0))))"
    by (simp add: ex_callback_bare)
  have u: "expires_in ex_bare_response = Undefined" by (simp add: ex_bare_response_def)
  note p'' = persisted_expiry
         [of "ms_tokens_key (js ''alice'')" ?tb TOKEN_TTL ex_world_bare ex_env ex_req "ex_store 0",
          THEN conjunct1, THEN mp, OF put'']
  from p'' obtain code' tr''
    where a'': "fst (exchangeCodeForToken ex_world_bare ex_env ex_req code') = Inr tr''"
      and b'': "expires_in tr'' = Undefined \<longrightarrow> expiresAt ?tb = Null"
    by blast
  from a'' have "tr'' = ex_bare_response" by (simp add: ex_exchange_bare)
  with b'' u have n: "expiresAt ?tb = Null" by simp
  from put h e g put' h' e' put'' u n show ?thesis by (intro conjI)
qed

text \<open>
  C8 as stated fails: a response with \<open>expires_in = 0\<close> is accepted, and the record
  written expires at the time it is written.
\<close>

theorem persisted_expiry_counterexample:
  "fst (exchangeCodeForToken (ex_world 0) ex_env ex_req (js ''validcode'')) = Inr (ex_token_response 0)
   \<and> expires_in (ex_token_response 0) = Number (Fin 0)
   \<and> last (snd (snd (ms_callback (ex_world 0) ex_env ex_req (ex_store 0))))
       = KvPut (ms_tokens_key (js ''alice''))
           (TokenData \<lparr>accessToken = js ''tok2'', refreshToken = None,
                        expiresAt = Number (Fin 1000000), userInfo = ex_stored_user\<rparr>) TOKEN_TTL
   \<and> time_value (date_now (ex_world 0) 0) = Fin 1000000
   \<and> \<not> js_gt (Fin 1000000) (Fin 1000000)"
proof -
  have t: "time_value (date_now (ex_world 0) 0) = Fin 1000000"
    using time_value_int [of 1000000] by (simp add: ex_world_def)
  have m: "js_mul (Fin 0) (Fin 1000) = Fin 0" using js_mul_int [of 0] by simp
  have a: "js_add (Fin 1000000) (Fin 0) = Fin 1000000" using js_add_int [of 1000000 0] by simp
  have n: "expires_in (ex_token_response 0) = Number (Fin 0)" by (simp add: ex_token_response_def)
  have d: "stored (new_token_data (ex_world 0) (ex_token_response 0) ex_user)
             = \<lparr>accessToken = js ''tok2'', refreshToken = None,
                expiresAt = Number (Fin 1000000), userInfo = ex_stored_user\<rparr>"
    by (simp add: stored_def new_token_data_def t n m a)
       (simp add: ex_token_response_def ex_user_def ex_stored_user_def ms_email_def js_def)
  show ?thesis
    unfolding ex_callback_ok ex_exchange_ok by (simp add: d t n js_gt_Fin)
qed



text \<open>
  C10. In every Microsoft callback a write to the store is the last effect, the record
  \<open>ms_tokens:{userId}\<close>, and comes after the token exchange and the Graph user-info
  request have both succeeded. When the nonce was found and either of the two throws, the
  answer is the error page with status 500 and the exception's message, no token record is
  written, and the nonce, deleted before the exchange, stays deleted.
\<close>

theorem ms_callback_token_written_last:
  "(KvPut k v ttl \<in> set (snd (snd (ms_callback w e req st))) \<longrightarrow>
      (\<exists>code state userId tr u.
           query req (js ''code'') = Some code \<and> query req (js ''state'') = Some state
           \<and> ms_oauth_state st state = Some userId
           \<and> fst (exchangeCodeForToken w e req code) = Inr tr
           \<and> fst (getMicrosoftUserInfo w (access_token tr)) = Inr u
           \<and> k = ms_tokens_key userId \<and> v = TokenData (stored (new_token_data w tr u))
           \<and> snd (snd (ms_callback w e req st)) =
                 [KvGet (ms_oauth_state_key state), KvDelete (ms_oauth_state_key state),
                  FetchCall (exchange_request e req code),
                  FetchCall (user_info_request (access_token tr)),
                  KvPut k v ttl]))
   \<and> (\<not> truthy_str (query req (js ''error''))
        \<and> query req (js ''code'') = Some code \<and> code \<noteq> []
        \<and> query req (js ''state'') = Some state \<and> state \<noteq> []
        \<and> ms_oauth_state st state = Some userId
        \<and> (fst (exchangeCodeForToken w e req code) = Inl ex
             \<or> (\<exists>tr. fst (exchangeCodeForToken w e req code) = Inr tr
                      \<and> fst (getMicrosoftUserInfo w (access_token tr)) = Inl ex))
      \<longrightarrow> status (fst (ms_callback w e req st)) = 500
          \<and> body (fst (ms_callback w e req st))
               = ErrorPage (message ex) (template_str (query req (js ''userId'')))
          \<and> ms_tokens (fst (snd (ms_callback w e req st))) = ms_tokens st
          \<and> ms_oauth_state (fst (snd (ms_callback w e req st))) state = None
          \<and> filter is_put (snd (snd (ms_callback w e req st))) = [])"
proof (intro conjI impI)
  assume "KvPut k v ttl \<in> set (snd (snd (ms_callback w e req st)))"
  from ms_callback_put [OF this] show "\<exists>code state userId tr u.
           query req (js ''code'') = Some code \<and> query req (js ''state'') = Some state
           \<and> ms_oauth_state st state = Some userId
           \<and> fst (exchangeCodeForToken w e req code) = Inr tr
           \<and> fst (getMicrosoftUserInfo w (access_token tr)) = Inr u
           \<and> k = ms_tokens_key userId \<and> v = TokenData (stored (new_token_data w tr u))
           \<and> snd (snd (ms_callback w e req st)) =
                 [KvGet (ms_oauth_state_key state), KvDelete (ms_oauth_state_key state),
                  FetchCall (exchange_request e req code),
                  FetchCall (user_info_request (access_token tr)),
                  KvPut k v ttl]"
    by blast
next
  assume a: "\<not> truthy_str (query req (js ''error''))
        \<and> query req (js ''code'') = Some code \<and> code \<noteq> []
        \<and> query req (js ''state'') = Some state \<and> state \<noteq> []
        \<and> ms_oauth_state st state = Some userId
        \<and> (fst (exchangeCodeForToken w e req code) = Inl ex
             \<or> (\<exists>tr. fst (exchangeCodeForToken w e req code) = Inr tr
                      \<and> fst (getMicrosoftUserInfo w (access_token tr)) = Inl ex))"
  then have r: "ms_callback w e req st =
     (case ms_callback_try w e req code state st of
        (Inr r, st', fx) \<Rightarrow> (r, st', fx)
      | (Inl ex, st', fx) \<Rightarrow>
          (c_html (ErrorPage (message ex) (template_str (query req (js ''userId'')))) 500, st',
           fx @ [ConsoleError [LStr (js ''Microsoft OAuth callback error:''), LExn ex]]))"
    by (intro ms_callback_reaches) simp_all
  from a have f: "ms_oauth_state st state = Some userId" by simp
  from a consider (x) "fst (exchangeCodeForToken w e req code) = Inl ex"
    | (u) tr where "fst (exchangeCodeForToken w e req code) = Inr tr"
        "fst (getMicrosoftUserInfo w (access_token tr)) = Inl ex"
    by blast
  then have "status (fst (ms_callback w e req st)) = 500
          \<and> body (fst (ms_callback w e req st))
               = ErrorPage (message ex) (template_str (query req (js ''userId'')))
          \<and> ms_tokens (fst (snd (ms_callback w e req st))) = ms_tokens st
          \<and> ms_oauth_state (fst (snd (ms_callback w e req st))) state = None
          \<and> filter is_put (snd (snd (ms_callback w e req st))) = []"
  proof cases
    case x
    then show ?thesis unfolding r by (simp add: ms_callback_try_found [OF f] c_html_def)
  next
    case u
    then show ?thesis unfolding r by (simp add: ms_callback_try_found [OF f] c_html_def)
  qed
  then show "status (fst (ms_callback w e req st)) = 500"
    and "body (fst (ms_callback w e req st))
               = ErrorPage (message ex) (template_str (query req (js ''userId'')))"
    and "ms_tokens (fst (snd (ms_callback w e req st))) = ms_tokens st"
    and "ms_oauth_state (fst (snd (ms_callback w e req st))) state = None"
    and "filter is_put (snd (snd (ms_callback w e req st))) = []"
    by simp_all
qed

theorem ms_callback_token_written_last_witness:
  "status (fst (ms_callback ex_world_down ex_env ex_req (ex_store 0))) = 500
   \<and> body (fst (ms_callback ex_world_down ex_env ex_req (ex_store 0)))
        = ErrorPage (js ''Token exchange failed: invalid_grant'') (js ''undefined'')
   \<and> ms_tokens (fst (snd (ms_callback ex_world_down ex_env ex_req (ex_store 0)))) = ms_tokens (ex_store 0)
   \<and> ms_oauth_state (fst (snd (ms_callback ex_world_down ex_env ex_req (ex_store 0)))) (js ''nonce1'') = None
   \<and> filter is_put (snd (snd (ms_callback ex_world_down ex_env ex_req (ex_store 0)))) = []
   \<and> fst (exchangeCodeForToken (ex_world 3600) ex_env ex_req (js ''validcode'')) = Inr (ex_token_response 3600)
   \<and> fst (getMicrosoftUserInfo (ex_world 3600) (js ''tok2'')) = Inr ex_user
   \<and> KvPut (ms_tokens_key (js ''alice''))
        (TokenData (stored (new_token_data (ex_world 3600) (ex_token_response 3600) ex_user))) TOKEN_TTL
        \<in> set (snd (snd (ms_callback (ex_world 3600) ex_env ex_req (ex_store 0))))"
proof -
  have put: "KvPut (ms_tokens_key (js ''alice''))
        (TokenData (stored (new_token_data (ex_world 3600) (ex_token_response 3600) ex_user))) TOKEN_TTL
        \<in> set (snd (snd (ms_callback (ex_world 3600) ex_env ex_req (ex_store 0))))"
    by (simp add: ex_callback_ok)
  have hyp: "\<not> truthy_str (query ex_req (js ''error''))
        \<and> query ex_req (js ''code'') = Some (js ''validcode'') \<and> js ''validcode'' \<noteq> []
        \<and> query ex_req (js ''state'') = Some (js ''nonce1'') \<and> js ''nonce1'' \<noteq> []
        \<and> ms_oauth_state (ex_store 0) (js ''nonce1'') = Some (js ''alice'')
        \<and> (fst (exchangeCodeForToken ex_world_down ex_env ex_req (js ''validcode''))
              = Inl (Exn Error (js ''Token exchange failed: invalid_grant''))
             \<or> (\<exists>tr. fst (exchangeCodeForToken ex_world_down ex_env ex_req (js ''validcode'')) = Inr tr
                      \<and> fst (getMicrosoftUserInfo ex_world_down (access_token tr))
                           = Inl (Exn Error (js ''Token exchange failed: invalid_grant''))))"
    by (simp add: ex_req_query ex_nonempty ex_store_nonce ex_exchange_down)
  from ms_callback_token_written_last
         [of _ _ _ ex_world_down ex_env ex_req "ex_store 0" "js ''validcode''" "js ''nonce1''"
             "js ''alice''" "Exn Error (js ''Token exchange failed: invalid_grant'')"]
       hyp
  have "status (fst (ms_callback ex_world_down ex_env ex_req (ex_store 0))) = 500
     \<and> body (fst (ms_callback ex_world_down ex_env ex_req (ex_store 0)))
          = ErrorPage (js ''Token exchange failed: invalid_grant'') (js ''undefined'')
     \<and> ms_tokens (fst (snd (ms_callback ex_world_down ex_env ex_req (ex_store 0)))) = ms_tokens (ex_store 0)
     \<and> ms_oauth_state (fst (snd (ms_callback ex_world_down ex_env ex_req (ex_store 0)))) (js ''nonce1'') = None
     \<and> filter is_put (snd (snd (ms_callback ex_world_down ex_env ex_req (ex_store 0)))) = []"
    by (simp add: ex_req_query)
  moreover from ms_callback_token_written_last
         [of "ms_tokens_key (js ''alice'')"
             "TokenData (stored (new_token_data (ex_world 3600) (ex_token_response 3600) ex_user))" TOKEN_TTL
             "ex_world 3600" ex_env ex_req "ex_store 0"] put
  have "fst (exchangeCodeForToken (ex_world 3600) ex_env ex_req (js ''validcode'')) = Inr (ex_token_response 3600)
      \<and> fst (getMicrosoftUserInfo (ex_world 3600) (js ''tok2'')) = Inr ex_user"
    by (simp add: ex_exchange_ok ex_user_ok)
  ultimately show ?thesis using put by simp
qed

section \<open>The state of the GitHub flow\<close>

text \<open>
  C2, as the code has it. \<open>redirectToGithub\<close> sends \<open>btoa(JSON.stringify(r))\<close> and the
  callback reads it back with \<open>JSON.parse(atob(s))\<close>. For every request \<open>r\<close> that is a value
  JavaScript can hold and JSON can carry (\<open>json_ok\<close>) and whose JSON text has no code unit
  above U+00FF, the encoding succeeds, \<open>atob\<close> gives the JSON text back, \<open>JSON.parse\<close>
  gives \<open>r\<close> back, and the callback decodes the state to \<open>r\<close>, at the first attempt.
  When the JSON text has a code unit above U+00FF, \<open>btoa\<close> throws and there is no state.
  It is the JSON text that counts: \<open>JSON.stringify\<close> escapes a lone surrogate, so a
  request that holds one is encoded and read back.
\<close>

theorem state_round_trip:
  "(json_ok pr rd r \<and> latin1 (JSON_stringify pr r) \<longrightarrow>
      (\<exists>s. encode_state pr r = Inr s
           \<and> atob s = Inr (JSON_stringify pr r)
           \<and> JSON_parse rd (JSON_stringify pr r) = Inr r
           \<and> fst (decode_state rd s) = Inr r))
   \<and> (\<not> latin1 (JSON_stringify pr r) \<longrightarrow>
        encode_state pr r = Inl (Exn InvalidCharacterError (js ''Invalid character'')))"
proof (intro conjI impI)
  assume a: "json_ok pr rd r \<and> latin1 (JSON_stringify pr r)"
  then have "JSON_parse rd (JSON_stringify pr r) = Inr r"
    by (intro JSON_parse_stringify) simp
  with decode_state_encoded [of pr rd r] a
  show "\<exists>s. encode_state pr r = Inr s
           \<and> atob s = Inr (JSON_stringify pr r)
           \<and> JSON_parse rd (JSON_stringify pr r) = Inr r
           \<and> fst (decode_state rd s) = Inr r"
    by blast
next
  assume "\<not> latin1 (JSON_stringify pr r)"
  then show "encode_state pr r = Inl (Exn InvalidCharacterError (js ''Invalid character''))"
    by (simp add: encode_state_def btoa_def latin1_def)
qed

theorem state_round_trip_witness:
  "json_ok ex_print ex_read ex_auth_request
   \<and> latin1 (JSON_stringify ex_print ex_auth_request)
   \<and> encode_state ex_print ex_auth_request
        = Inr (js ''eyJyZXNwb25zZVR5cGUiOiJjb2RlIiwiY2xpZW50SWQiOiJhYmMxMjMiLCJyZWRpcmVjdFVyaSI6Imh0dHBzOi8vY2xpZW50LmV4YW1wbGUvY2IiLCJzY29wZSI6WyJyZWFkIiwid3JpdGUiXSwic3RhdGUiOiJ4eXoifQ=='')
   \<and> fst (decode_state ex_read
        (js ''eyJyZXNwb25zZVR5cGUiOiJjb2RlIiwiY2xpZW50SWQiOiJhYmMxMjMiLCJyZWRpcmVjdFVyaSI6Imh0dHBzOi8vY2xpZW50LmV4YW1wbGUvY2IiLCJzY29wZSI6WyJyZWFkIiwid3JpdGUiXSwic3RhdGUiOiJ4eXoifQ==''))
        = Inr ex_auth_request
   \<and> json_ok ex_print ex_read ex_surrogate_request
   \<and> latin1 (JSON_stringify ex_print ex_surrogate_request)
   \<and> encode_state ex_print ex_surrogate_request = Inr (js ''eyJjbGllbnRJZCI6Ilx1ZDgwMCJ9'')
   \<and> fst (decode_state ex_read (js ''eyJjbGllbnRJZCI6Ilx1ZDgwMCJ9'')) = Inr ex_surrogate_request
   \<and> \<not> latin1 (JSON_stringify ex_print ex_euro_request)
   \<and> encode_state ex_print ex_euro_request = Inl (Exn InvalidCharacterError (js ''Invalid character''))"
proof -
  have l: "latin1 (JSON_stringify ex_print ex_auth_request)"
    unfolding ex_auth_request_text by (simp add: latin1_def js_def)
  have e: "encode_state ex_print ex_auth_request
        = Inr (js ''eyJyZXNwb25zZVR5cGUiOiJjb2RlIiwiY2xpZW50SWQiOiJhYmMxMjMiLCJyZWRpcmVjdFVyaSI6Imh0dHBzOi8vY2xpZW50LmV4YW1wbGUvY2IiLCJzY29wZSI6WyJyZWFkIiwid3JpdGUiXSwic3RhdGUiOiJ4eXoifQ=='')"
    unfolding encode_state_def ex_auth_request_text
    by (simp add: btoa_def js_def b64_digit_def)
  have l': "latin1 (JSON_stringify ex_print ex_surrogate_request)"
    unfolding ex_surrogate_request_text by (simp add: latin1_def js_def)
  have e': "encode_state ex_print ex_surrogate_request = Inr (js ''eyJjbGllbnRJZCI6Ilx1ZDgwMCJ9'')"
    unfolding encode_state_def ex_surrogate_request_text
    by (simp add: btoa_def js_def b64_digit_def)
  have n: "\<not> latin1 (JSON_stringify ex_print ex_euro_request)"
    unfolding ex_euro_request_text by (simp add: latin1_def js_def)
  from state_round_trip [of ex_print ex_read ex_auth_request] ex_auth_request_ok l e
  have 1: "fst (decode_state ex_read
        (js ''eyJyZXNwb25zZVR5cGUiOiJjb2RlIiwiY2xpZW50SWQiOiJhYmMxMjMiLCJyZWRpcmVjdFVyaSI6Imh0dHBzOi8vY2xpZW50LmV4YW1wbGUvY2IiLCJzY29wZSI6WyJyZWFkIiwid3JpdGUiXSwic3RhdGUiOiJ4eXoifQ==''))
        = Inr ex_auth_request"
    by auto
  from state_round_trip [of ex_print ex_read ex_surrogate_request] ex_surrogate_request_ok l' e'
  have 2: "fst (decode_state ex_read (js ''eyJjbGllbnRJZCI6Ilx1ZDgwMCJ9'')) = Inr ex_surrogate_request"
    by auto
  from state_round_trip [of ex_print ex_read ex_euro_request] n
  have 3: "encode_state ex_print ex_euro_request = Inl (Exn InvalidCharacterError (js ''Invalid character''))"
    by simp
  from ex_auth_request_ok l e 1 ex_surrogate_request_ok l' e' 2 n 3 show ?thesis by (intro conjI)
qed

theorem state_round_trip_counterexample:
  "json_ok ex_print ex_read ex_euro_request
   \<and> JSON_stringify ex_print ex_euro_request = js (''{'' @ [CHR 0x22] @ ''clientId'' @ [CHR 0x22] @ '':'' @ [CHR 0x22]) @ [0x20AC] @ js ([CHR 0x22] @ ''}'')
   \<and> encode_state ex_print ex_euro_request = Inl (Exn InvalidCharacterError (js ''Invalid character''))"
  by (simp add: ex_euro_request_def js_object_def array_index_def is_digit_def encode_state_def
        btoa_def QuoteJSONString_def quote_unit_def is_high_surrogate_def is_low_surrogate_def js_def)

text \<open>
  C1 fails at the state \<open>bnVsbA==\<close>, which is \<open>btoa("null")\<close>. The direct decode
  succeeds with \<open>null\<close>, so no second attempt is made; reading \<open>clientId\<close> of
  \<open>null\<close> throws a \<open>TypeError\<close>, which the outer \<open>catch\<close> answers with HTTP 500 and
  the text \<open>Callback error: Cannot read properties of null (reading 'clientId')\<close>, where
  the claim promises the HTTP 400 of a state that lacks a client id. No exchange is made
  and the store is left as it was.
\<close>

theorem callback_null_state:
  "fst (decode_state (read_number w) (js ''bnVsbA=='')) = Inr JNull
   \<and> callback w e ex_null_req st =
       (c_text (js ''Callback error: '' @ message (null_property_error ''clientId'')) 500, st,
        [Log [GStr (js ''State parameter received:''), GStr (js ''bnVsbA=='')],
         Log [GStr (js ''Base64 decoded state:''), GStr (js ''null'')],
         LogError [GStr (js ''Unexpected error in callback:''),
                   GExn (null_property_error ''clientId'')]])
   \<and> status (fst (callback w e ex_null_req st)) = 500"
proof -
  have n: "js ''bnVsbA=='' \<noteq> []" by (simp add: js_def)
  from callback_null [OF ex_null_req_query n decode_state_null, of w e st]
  show ?thesis by (simp add: decode_state_null c_text_def)
qed

section \<open>When the exchange is attempted\<close>

text \<open>
  C3, as the code has it. \<open>GET /callback\<close> calls the exchange helper, once, exactly when
  the state parameter is present and non-empty and decodes to a value whose \<open>clientId\<close>
  is truthy; it looks at neither the code nor the error parameter, and passes the code on
  as it is, present or not. When it does not call the helper it answers 400 or 500 and
  leaves the store as it was; with no state it answers 400 \<open>Missing state parameter\<close>.
  \<open>GET /microsoft/callback\<close> reaches the token endpoint exactly when there is no error
  parameter, code and state are present and non-empty and the state is a stored nonce; when
  it does not, the store is left as it was and the answer is the authorization-failed
  page, sent with status 200, if there is an error parameter, and a 400 or 500 otherwise.
\<close>

theorem exchange_attempted_when:
  "filter is_exchange (snd (snd (callback w e req st))) =
     (if \<exists>s v cid. query req (js ''state'') = Some s \<and> s \<noteq> []
            \<and> fst (decode_state (read_number w) s) = Inr v
            \<and> get_property v ''clientId'' = Inr cid \<and> truthy (number_truthy w) cid
      then [UpstreamTokenCall (token_params e req)] else [])
   \<and> ut_code (token_params e req) = query req (js ''code'')
   \<and> (filter is_exchange (snd (snd (callback w e req st))) = [] \<longrightarrow>
        (status (fst (callback w e req st)) = 400 \<or> status (fst (callback w e req st)) = 500)
        \<and> fst (snd (callback w e req st)) = st)
   \<and> (\<not> truthy_str (query req (js ''state'')) \<longrightarrow>
        callback w e req st =
          (c_text (js ''Missing state parameter'') 400, st,
           [LogError [GStr (js ''No state parameter found'')]]))
   \<and> (list_ex is_fetch (snd (snd (ms_callback wm e req st))) \<longleftrightarrow>
        (\<not> truthy_str (query req (js ''error''))
         \<and> (\<exists>code state. query req (js ''code'') = Some code \<and> code \<noteq> []
                \<and> query req (js ''state'') = Some state \<and> state \<noteq> []
                \<and> ms_oauth_state st state \<noteq> None)))
   \<and> (\<not> list_ex is_fetch (snd (snd (ms_callback wm e req st))) \<longrightarrow>
        fst (snd (ms_callback wm e req st)) = st
        \<and> (if truthy_str (query req (js ''error''))
            then status (fst (ms_callback wm e req st)) = 200
                 \<and> (\<exists>m. body (fst (ms_callback wm e req st)) = AuthorizationFailedPage m)
            else status (fst (ms_callback wm e req st)) = 400
                 \<or> status (fst (ms_callback wm e req st)) = 500))"
  using callback_exchanges [of w e req st] callback_without_exchange [of w e req st]
    callback_no_state [of req w e st] ms_callback_fetches [of wm e req st]
    ms_callback_without_fetch [of wm e req st]
  by (simp add: token_params_def)

theorem exchange_attempted_when_witness:
  "\<not> truthy_str (query ex_bare_req (js ''state''))
   \<and> callback ex_gh_world ex_env ex_bare_req (ex_store 0) =
        (c_text (js ''Missing state parameter'') 400, ex_store 0,
         [LogError [GStr (js ''No state parameter found'')]])
   \<and> filter is_exchange (snd (snd (callback ex_gh_world ex_env ex_bare_req (ex_store 0)))) = []
   \<and> \<not> list_ex is_fetch (snd (snd (ms_callback ex_world_down ex_env ex_bare_req (ex_store 0))))
   \<and> status (fst (ms_callback ex_world_down ex_env ex_bare_req (ex_store 0))) = 400
   \<and> fst (snd (ms_callback ex_world_down ex_env ex_bare_req (ex_store 0))) = ex_store 0"
proof -
  have h: "\<not> truthy_str (query ex_bare_req (js ''state''))" by (simp add: ex_bare_req_query)
  have s: "status (fst (ms_callback ex_world_down ex_env ex_bare_req (ex_store 0))) = 400"
    by (simp add: ms_callback_def ex_bare_req_query c_text_def)
  from exchange_attempted_when [of ex_gh_world ex_env ex_bare_req "ex_store 0" ex_world_down] h s
  show ?thesis by (simp add: ex_bare_req_query)
qed

theorem exchange_attempted_when_counterexample:
  "query ex_error_req (js ''error'') = Some (js ''access_denied'')
   \<and> query ex_error_req (js ''code'') = Some (js ''validcode'')
   \<and> query ex_error_req (js ''state'') = Some (js ''eyJjbGllbnRJZCI6ImFiYzEyMyJ9'')
   \<and> filter is_exchange (snd (snd (callback ex_gh_world ex_env ex_error_req (ex_store 0))))
        = [UpstreamTokenCall
             \<lparr>ut_client_id = js ''gh-id'', ut_client_secret = js ''gh-secret'',
              ut_code = Some (js ''validcode''),
              ut_redirect_uri = js ''https://mcp.example.com/callback'',
              ut_upstream_url = js ''https://github.com/login/oauth/access_token''\<rparr>]"
proof -
  have n: "ex_state \<noteq> []" by (simp add: ex_state_def js_def)
  have c: "get_property ex_small_request ''clientId'' = Inr (Some (JStr (js ''abc123'')))"
    by (simp add: ex_small_request_def)
  have t: "truthy (number_truthy ex_gh_world) (Some (JStr (js ''abc123'')))"
    by (simp add: js_def)
  have d: "fst (decode_state (read_number ex_gh_world) ex_state) = Inr ex_small_request"
    using ex_state_decoded by (simp add: ex_gh_world_def)
  have "\<exists>s v cid. query ex_error_req (js ''state'') = Some s \<and> s \<noteq> []
            \<and> fst (decode_state (read_number ex_gh_world) s) = Inr v
            \<and> get_property v ''clientId'' = Inr cid \<and> truthy (number_truthy ex_gh_world) cid"
    using ex_error_req_query(3) n d c t by blast
  then have "filter is_exchange (snd (snd (callback ex_gh_world ex_env ex_error_req (ex_store 0))))
               = [UpstreamTokenCall (token_params ex_env ex_error_req)]"
    by (simp only: callback_exchanges if_True)
  moreover have "token_params ex_env ex_error_req =
             \<lparr>ut_client_id = js ''gh-id'', ut_client_secret = js ''gh-secret'',
              ut_code = Some (js ''validcode''),
              ut_redirect_uri = js ''https://mcp.example.com/callback'',
              ut_upstream_url = js ''https://github.com/login/oauth/access_token''\<rparr>"
    by (simp add: token_params_def ex_error_req_query ex_env_def url_href_def)
       (simp add: ex_error_req_def js_def)
  ultimately show ?thesis
    using ex_error_req_query by (simp add: ex_state_def)
qed

section \<open>A token endpoint that refuses\<close>

text \<open>
  C9, as the code has it. When the token endpoint answers with a status outside 200..299,
  \<open>exchangeCodeForToken\<close> throws an \<open>Error\<close> whose message is
  \<open>Token exchange failed: \<close> followed by the body of the upstream response, as it came;
  the upstream status is not part of it. \<open>GET /microsoft/callback\<close> then answers with
  the error page, status 500, showing that message; the nonce is consumed and the failure
  is written with \<open>console.error\<close>. No run of that handler writes with
  \<open>console.log\<close>. In \<open>GET /callback\<close> the error response the exchange helper returns
  is sent as it is, and the log entries name the state and the decoded request only.
\<close>

theorem exchange_failure:
  "(fetch_token w (exchange_request e req code) = Inr r \<and> \<not> ok r \<longrightarrow>
      exchangeCodeForToken w e req code =
        (Inl (Exn Error (js ''Token exchange failed: '' @ fs_text r)),
         [FetchCall (exchange_request e req code)]))
   \<and> (fetch_token w (exchange_request e req code) = Inr r \<and> \<not> ok r
        \<and> \<not> truthy_str (query req (js ''error''))
        \<and> query req (js ''code'') = Some code \<and> code \<noteq> []
        \<and> query req (js ''state'') = Some state \<and> state \<noteq> []
        \<and> ms_oauth_state st state = Some userId \<longrightarrow>
      ms_callback w e req st =
        (c_html (ErrorPage (js ''Token exchange failed: '' @ fs_text r)
                   (template_str (query req (js ''userId'')))) 500,
         st\<lparr>ms_oauth_state := (ms_oauth_state st)(state := None)\<rparr>,
         [KvGet (ms_oauth_state_key state), KvDelete (ms_oauth_state_key state),
          FetchCall (exchange_request e req code),
          ConsoleError [LStr (js ''Microsoft OAuth callback error:''),
                        LExn (Exn Error (js ''Token exchange failed: '' @ fs_text r))]]))
   \<and> filter is_console_log (snd (snd (ms_callback w e req st))) = []
   \<and> (query req' (js ''state'') = Some s \<and> s \<noteq> []
        \<and> decode_state (read_number gw) s = (Inr v, fx)
        \<and> get_property v ''clientId'' = Inr cid \<and> truthy (number_truthy gw) cid
        \<and> fetchUpstreamAuthToken gw (token_params e req') = Inr (Inl errResponse) \<longrightarrow>
      callback gw e req' st =
        (errResponse, st,
         Log [GStr (js ''State parameter received:''), GStr s] # fx
           @ [Log [GStr (js ''Successfully decoded oauthReqInfo:''), GJson v],
              UpstreamTokenCall (token_params e req'),
              LogError [GStr (js ''Error fetching upstream auth token'')]]))"
  using exchangeCodeForToken_rejected [of w e req code r]
    ms_callback_rejected [of w e req code r state st userId]
    ms_callback_quiet [of w e req st]
    callback_rejected [of req' s gw v fx cid e errResponse st]
  by blast

theorem exchange_failure_witness:
  "exchangeCodeForToken ex_world_down ex_env ex_req (js ''validcode'') =
     (Inl (Exn Error (js ''Token exchange failed: invalid_grant'')),
      [FetchCall (exchange_request ex_env ex_req (js ''validcode''))])
   \<and> ms_callback ex_world_down ex_env ex_req (ex_store 0) =
       (c_html (ErrorPage (js ''Token exchange failed: invalid_grant'') (js ''undefined'')) 500,
        (ex_store 0)\<lparr>ms_oauth_state := (ms_oauth_state (ex_store 0))(js ''nonce1'' := None)\<rparr>,
        [KvGet (ms_oauth_state_key (js ''nonce1'')), KvDelete (ms_oauth_state_key (js ''nonce1'')),
         FetchCall (exchange_request ex_env ex_req (js ''validcode'')),
         ConsoleError [LStr (js ''Microsoft OAuth callback error:''),
                       LExn (Exn Error (js ''Token exchange failed: invalid_grant''))]])
   \<and> fst (callback ex_gh_world ex_env ex_error_req (ex_store 0)) =
       \<lparr>status = 500, headers = [], body = TextBody (js ''Failed to fetch access token'')\<rparr>"
proof -
  let ?r = "\<lparr>fs_status = 400, fs_text = js ''invalid_grant'',
             fs_json = Inl (Exn SyntaxError []) :: exn + token_response\<rparr>"
  have k: "\<not> ok ?r" by (simp add: ok_def)
  have n: "ex_state \<noteq> []" by (simp add: ex_state_def js_def)
  have q: "query ex_error_req (js ''state'') = Some ex_state"
    by (simp add: ex_error_req_def js_def)
  have d: "decode_state (read_number ex_gh_world) ex_state =
     (Inr ex_small_request,
      [Log [GStr (js ''Base64 decoded state:''), GStr (JSON_stringify ex_print ex_small_request)]])"
    using ex_state_decode by (simp add: ex_gh_world_def)
  have c: "get_property ex_small_request ''clientId'' = Inr (Some (JStr (js ''abc123'')))"
    by (simp add: ex_small_request_def)
  have t: "truthy (number_truthy ex_gh_world) (Some (JStr (js ''abc123'')))"
    by (simp add: js_def)
  have f: "fetchUpstreamAuthToken ex_gh_world (token_params ex_env ex_error_req) =
     Inr (Inl \<lparr>status = 500, headers = [], body = TextBody (js ''Failed to fetch access token'')\<rparr>)"
    by (simp add: ex_gh_world_def)
  have m: "js ''Token exchange failed: '' @ js ''invalid_grant'' = js ''Token exchange failed: invalid_grant''"
    by (simp add: js_def)
  from exchange_failure [of ex_world_down ex_env ex_req "js ''validcode''" ?r "js ''nonce1''"
      "ex_store 0" "js ''alice''" ex_error_req ex_state ex_gh_world ex_small_request
      "[Log [GStr (js ''Base64 decoded state:''), GStr (JSON_stringify ex_print ex_small_request)]]"
      "Some (JStr (js ''abc123''))"
      "\<lparr>status = 500, headers = [], body = TextBody (js ''Failed to fetch access token'')\<rparr>"]
    k n q d c t f ex_down_response(1) ex_req_query ex_nonempty ex_store_nonce
  show ?thesis by (simp add: m)
qed

theorem exchange_failure_counterexample:
  "fetch_token ex_world_down (exchange_request ex_env ex_req (js ''validcode'')) =
     Inr \<lparr>fs_status = 400, fs_text = js ''invalid_grant'', fs_json = Inl (Exn SyntaxError [])\<rparr>
   \<and> fetch_token ex_world_unavailable (exchange_request ex_env ex_req (js ''validcode'')) =
     Inr \<lparr>fs_status = 503, fs_text = js ''invalid_grant'', fs_json = Inl (Exn SyntaxError [])\<rparr>
   \<and> exchangeCodeForToken ex_world_down ex_env ex_req (js ''validcode'') =
       (Inl (Exn Error (js ''Token exchange failed: invalid_grant'')),
        [FetchCall (exchange_request ex_env ex_req (js ''validcode''))])
   \<and> exchangeCodeForToken ex_world_unavailable ex_env ex_req (js ''validcode'') =
       (Inl (Exn Error (js ''Token exchange failed: invalid_grant'')),
        [FetchCall (exchange_request ex_env ex_req (js ''validcode''))])
   \<and> status (fst (ms_callback ex_world_down ex_env ex_req (ex_store 0))) = 500
   \<and> status (fst (ms_callback ex_world_unavailable ex_env ex_req (ex_store 0))) = 500"
proof -
  have m: "js ''Token exchange failed: '' @ js ''invalid_grant'' = js ''Token exchange failed: invalid_grant''"
    by (simp add: js_def)
  have 1: "exchangeCodeForToken ex_world_down ex_env ex_req (js ''validcode'') =
       (Inl (Exn Error (js ''Token exchange failed: invalid_grant'')),
        [FetchCall (exchange_request ex_env ex_req (js ''validcode''))])"
    using exchangeCodeForToken_rejected [OF ex_down_response(1)] by (simp add: ok_def m)
  have 2: "exchangeCodeForToken ex_world_unavailable ex_env ex_req (js ''validcode'') =
       (Inl (Exn Error (js ''Token exchange failed: invalid_grant'')),
        [FetchCall (exchange_request ex_env ex_req (js ''validcode''))])"
    using exchangeCodeForToken_rejected [OF ex_down_response(2)] by (simp add: ok_def m)
  have 3: "status (fst (ms_callback ex_world_down ex_env ex_req (ex_store 0))) = 500"
    by (simp add: ms_callback_def ms_callback_try_def ex_req_query ex_nonempty ex_store_nonce 1 c_html_def)
  have 4: "status (fst (ms_callback ex_world_unavailable ex_env ex_req (ex_store 0))) = 500"
    by (simp add: ms_callback_def ms_callback_try_def ex_req_query ex_nonempty ex_store_nonce 2 c_html_def)
  show ?thesis using 1 2 3 4 ex_down_response by simp
qed

end
